theory Spec2Isabelle
  imports Complex_Main "HOL-Library.Multiset"
begin

section \<open>Python string primitives used by the scripts\<close>

text \<open>
  Strings are byte lists. Only ASCII is modelled: \<^verbatim>\<open>str.strip\<close>, \<^verbatim>\<open>str.lower\<close> and
  \<^verbatim>\<open>int\<close> follow CPython on ASCII text, which is what the annotation files and the
  file names of the dataset contain.
\<close>

definition is_space :: "char \<Rightarrow> bool" where
  "is_space c = (let k = (of_char c :: nat) in (9 \<le> k \<and> k \<le> 13) \<or> (28 \<le> k \<and> k \<le> 32))"

definition is_digit :: "char \<Rightarrow> bool" where
  "is_digit c = (let k = (of_char c :: nat) in 48 \<le> k \<and> k \<le> 57)"

definition digit_val :: "char \<Rightarrow> nat" where
  "digit_val c = of_char c - 48"

definition strip :: "string \<Rightarrow> string" where
  "strip s = rev (dropWhile is_space (rev (dropWhile is_space s)))"

text \<open>\<^verbatim>\<open>s.split(",")\<close>: the fields between the separators; an empty string gives one empty field.\<close>

fun split_on :: "char \<Rightarrow> string \<Rightarrow> string \<Rightarrow> string list" where
  "split_on sep cur [] = [rev cur]"
| "split_on sep cur (c # cs) =
     (if c = sep then rev cur # split_on sep [] cs else split_on sep (c # cur) cs)"

definition split_comma :: "string \<Rightarrow> string list" where
  "split_comma s = split_on (CHR '','') [] s"

text \<open>
  The digits of a decimal literal as \<^verbatim>\<open>int\<close> accepts them: one or more digits, single
  underscores allowed between digits only. The flag says whether the previous character
  was a digit.
\<close>

fun parse_digits :: "nat \<Rightarrow> bool \<Rightarrow> string \<Rightarrow> nat option" where
  "parse_digits acc pd [] = (if pd then Some acc else None)"
| "parse_digits acc pd (c # cs) =
     (if is_digit c then parse_digits (10 * acc + digit_val c) True cs
      else if c = CHR ''_'' \<and> pd then parse_digits acc False cs
      else None)"

text \<open>\<^verbatim>\<open>int(s)\<close> on a string: \<open>None\<close> stands for the \<^verbatim>\<open>ValueError\<close> it raises.\<close>

definition py_int :: "string \<Rightarrow> int option" where
  "py_int s =
     (case strip s of
        [] \<Rightarrow> None
      | c # cs \<Rightarrow>
          if c = CHR ''-'' then map_option (\<lambda>n. - int n) (parse_digits 0 False cs)
          else if c = CHR ''+'' then map_option int (parse_digits 0 False cs)
          else map_option int (parse_digits 0 False (c # cs)))"

text \<open>\<^verbatim>\<open>str(n)\<close> for an integer, as the f-string \<^verbatim>\<open>f"{frame_num}.jpg"\<close> formats it.\<close>

fun digits_of :: "nat \<Rightarrow> string" where
  "digits_of n =
     (if n < 10 then [char_of (48 + n)] else digits_of (n div 10) @ [char_of (48 + n mod 10)])"

declare digits_of.simps [simp del]

definition py_str :: "int \<Rightarrow> string" where
  "py_str i = (if i < 0 then CHR ''-'' # digits_of (nat (- i)) else digits_of (nat i))"


text \<open>\<^verbatim>\<open>os.path.join(a, b)\<close> on POSIX paths.\<close>

definition path_join :: "string \<Rightarrow> string \<Rightarrow> string" where
  "path_join a b =
     (if b \<noteq> [] \<and> hd b = CHR ''/'' then b
      else if a = [] \<or> last a = CHR ''/'' then a @ b
      else a @ CHR ''/'' # b)"

section \<open>Python sequence slicing\<close>

text \<open>
  A slice bound \<open>i\<close> on a sequence of length \<open>n\<close>: a negative bound counts from the end,
  and every bound is clipped into \<open>0..n\<close>. An omitted bound is \<open>None\<close>.
\<close>

definition slice_index :: "int \<Rightarrow> int \<Rightarrow> int" where
  "slice_index n i = (if i < 0 then max 0 (n + i) else min n i)"

definition py_slice :: "'a list \<Rightarrow> int option \<Rightarrow> int option \<Rightarrow> 'a list" where
  "py_slice xs a b =
     (let n = int (length xs);
          s = (case a of None \<Rightarrow> 0 | Some i \<Rightarrow> slice_index n i);
          e = (case b of None \<Rightarrow> n | Some j \<Rightarrow> slice_index n j)
      in take (nat (e - s)) (drop (nat s) xs))"

definition slice_len :: "nat \<Rightarrow> int \<Rightarrow> int \<Rightarrow> int" where
  "slice_len n a b = max 0 (slice_index (int n) b - slice_index (int n) a)"

section \<open>The external capabilities: video decoder, image codec, file system\<close>

text \<open>
  A decoded frame carries its shape (height and width; the decoder delivers three
  channels); its pixel content is an opaque identifier. An image
  is what the extractor builds from a frame: a sub-rectangle \<^verbatim>\<open>frame[y0:y1, x0:x1]\<close> and
  its resizing by \<^verbatim>\<open>cv.resize(img, (w, h), interpolation=cv.INTER_LINEAR)\<close>.
\<close>

record frame =
  pixels :: nat
  height_frame :: nat
  width_frame :: nat

datatype image =
    Crop frame int int int int
  | Resized_Linear image int int

text \<open>The shape (rows, columns) of an image.\<close>

fun shape :: "image \<Rightarrow> int \<times> int" where
  "shape (Crop fr y0 y1 x0 x1) = (slice_len (height_frame fr) y0 y1, slice_len (width_frame fr) x0 x1)"
| "shape (Resized_Linear img w h) = (h, w)"

text \<open>
  \<^verbatim>\<open>cv.resize\<close> raises on an empty source and on a target size that is not positive;
  \<open>None\<close> stands for the exception.
\<close>

definition cv_resize :: "image \<Rightarrow> int \<Rightarrow> int \<Rightarrow> image option" where
  "cv_resize img w h =
     (if fst (shape img) \<le> 0 \<or> snd (shape img) \<le> 0 \<or> w \<le> 0 \<or> h \<le> 0 then None
      else Some (Resized_Linear img w h))"

text \<open>What \<^verbatim>\<open>cv.imwrite\<close> does with a path and an image: write it, return false, or raise.\<close>

datatype write_result = Written | Not_Written | Write_Raises

text \<open>
  The environment of a run. A video that opens is the function from a frame position to
  the frame read there (\<^verbatim>\<open>video.set(cv.CAP_PROP_POS_FRAMES, k)\<close> followed by
  \<^verbatim>\<open>video.read()\<close>); a text file is the list of its lines as iteration yields them;
  \<open>listdir\<close> is \<^verbatim>\<open>os.listdir\<close>, with \<open>None\<close> where it raises; \<open>walk\<close> is the list of
  \<open>(root, dirs, files)\<close> triples that \<^verbatim>\<open>os.walk\<close> yields. Directories themselves are not
  part of the state: \<^verbatim>\<open>mkdir(parents=True, exist_ok=True)\<close> and \<^verbatim>\<open>os.makedirs\<close> leave no
  trace in it, and a path is one file name, compared as a string.
\<close>

record env =
  video_capture :: "string \<Rightarrow> (int \<Rightarrow> frame option) option"
  open_text :: "string \<Rightarrow> string list option"
  imwrite :: "string \<Rightarrow> image \<Rightarrow> write_result"
  listdir :: "string \<Rightarrow> string list option"
  isfile :: "string \<Rightarrow> bool"
  walk :: "string \<Rightarrow> (string \<times> string list \<times> string list) list"

text \<open>The lines the scripts print.\<close>

datatype diag =
    Cannot_Open_Video string
  | Skipping_Empty_Line nat string
  | Malformed_Annotation nat string string
  | Invalid_Box_Dimensions int int nat
  | Error_Parsing_Line nat string
  | Cannot_Read_Frame int string
  | Invalid_Crop_Dimensions int
  | Error_Saving_Frame int
  | Error_Processing_Frame int
  | Processing_Videos nat string
  | Annotation_Missing string string
  | Processing_Video string string
  | Found_Images nat string
  | No_Files_In_No_Fall
  | No_Files_In_Fall
  | Training_Set nat nat
  | Validation_Set nat nat
  | Test_Set nat nat

datatype exc = ValueError | FileNotFoundError | SameFileError | OverflowError

text \<open>The observable state: what has been printed, and the image files on disk.\<close>

record world =
  out :: "diag list"
  disk :: "string \<rightharpoonup> image"

definition say :: "diag \<Rightarrow> world \<Rightarrow> world" where
  "say d w = w\<lparr>out := out w @ [d]\<rparr>"

section \<open>The frame extractor\<close>

text \<open>The five \<^verbatim>\<open>int(annotations[k])\<close> calls; \<open>None\<close> is the \<^verbatim>\<open>ValueError\<close>.\<close>

definition parse_fields :: "string list \<Rightarrow> (int \<times> int \<times> int \<times> int \<times> int) option" where
  "parse_fields annotations =
     (case py_int (annotations ! 0) of None \<Rightarrow> None | Some frame_num \<Rightarrow>
     (case py_int (annotations ! 2) of None \<Rightarrow> None | Some x_center \<Rightarrow>
     (case py_int (annotations ! 3) of None \<Rightarrow> None | Some y_center \<Rightarrow>
     (case py_int (annotations ! 4) of None \<Rightarrow> None | Some width \<Rightarrow>
     (case py_int (annotations ! 5) of None \<Rightarrow> None | Some height \<Rightarrow>
        Some (frame_num, x_center, y_center, width, height))))))"

text \<open>The crop box \<open>(x_start, y_start, x_end, y_end)\<close>; \<open>div\<close> is Python's \<^verbatim>\<open>//\<close>.\<close>

definition crop_box :: "frame \<Rightarrow> int \<Rightarrow> int \<Rightarrow> int \<Rightarrow> int \<Rightarrow> int \<times> int \<times> int \<times> int" where
  "crop_box fr x_center y_center width height =
     (max 0 (x_center - width div 2),
      max 0 (y_center - height div 2),
      min (int (width_frame fr)) (x_center + width div 2),
      min (int (height_frame fr)) (y_center + height div 2))"

text \<open>\<^verbatim>\<open>cv.imwrite(img_save_path, cropped)\<close> inside the \<^verbatim>\<open>try\<close>, with its two failure prints.\<close>

definition save_image :: "env \<Rightarrow> string \<Rightarrow> image \<Rightarrow> int \<Rightarrow> world \<Rightarrow> world" where
  "save_image E img_save_path cropped frame_num w =
     (case imwrite E img_save_path cropped of
        Written \<Rightarrow> w\<lparr>disk := (disk w)(img_save_path \<mapsto> cropped)\<rparr>
      | Not_Written \<Rightarrow> say (Error_Saving_Frame frame_num) w
      | Write_Raises \<Rightarrow> say (Error_Processing_Frame frame_num) w)"

text \<open>
  \<^verbatim>\<open>data.py\<close>, the body of the loop for a line after the second. Comparing with a bound
  that is still \<^verbatim>\<open>None\<close> raises inside the \<^verbatim>\<open>try\<close> and is printed like any other
  processing error.
\<close>

definition data_record ::
  "env \<Rightarrow> (int \<Rightarrow> frame option) \<Rightarrow> string \<Rightarrow> string \<Rightarrow> string \<Rightarrow> string \<Rightarrow> int \<Rightarrow>
   int option \<Rightarrow> int option \<Rightarrow> nat \<Rightarrow> string \<Rightarrow> world \<Rightarrow> world" where
  "data_record E video video_path annotation_path fall_save_path no_fall_save_path image_size
     fall_start_frame fall_end_frame line_num line w =
     (let annotations = split_comma (strip line) in
      if length annotations < 6
      then say (Malformed_Annotation line_num annotation_path (strip line)) w
      else case parse_fields annotations of
        None \<Rightarrow> say (Error_Parsing_Line line_num annotation_path) w
      | Some (frame_num, x_center, y_center, width, height) \<Rightarrow>
          if width \<le> 0 \<or> height \<le> 0
          then say (Invalid_Box_Dimensions width height line_num) w
          else (case video (frame_num - 1) of
            None \<Rightarrow> say (Cannot_Read_Frame frame_num video_path) w
          | Some fr \<Rightarrow>
              (case crop_box fr x_center y_center width height of
                 (x_start, y_start, x_end, y_end) \<Rightarrow>
                   if x_start \<ge> x_end \<or> y_start \<ge> y_end
                   then say (Invalid_Crop_Dimensions frame_num) w
                   else (case cv_resize (Crop fr y_start y_end x_start x_end) image_size image_size of
                     None \<Rightarrow> say (Error_Processing_Frame frame_num) w
                   | Some cropped \<Rightarrow>
                       (case (fall_start_frame, fall_end_frame) of
                          (Some s, Some e) \<Rightarrow>
                            save_image E
                              (path_join
                                 (if s \<le> frame_num \<and> frame_num \<le> e
                                  then fall_save_path else no_fall_save_path)
                                 (py_str frame_num @ ''.jpg''))
                              cropped frame_num w
                        | _ \<Rightarrow> say (Error_Processing_Frame frame_num) w)))))"

text \<open>
  The loop state of \<^verbatim>\<open>data.py\<close>: the two bounds and the world. Lines 1 and 2 are
  converted by \<^verbatim>\<open>int(line.strip())\<close> outside any \<^verbatim>\<open>try\<close>, so a \<^verbatim>\<open>ValueError\<close> there
  leaves the function.
\<close>

definition data_line ::
  "env \<Rightarrow> (int \<Rightarrow> frame option) \<Rightarrow> string \<Rightarrow> string \<Rightarrow> string \<Rightarrow> string \<Rightarrow> int \<Rightarrow>
   nat \<Rightarrow> string \<Rightarrow> int option \<times> int option \<times> world \<Rightarrow> exc + int option \<times> int option \<times> world" where
  "data_line E video video_path annotation_path fall_save_path no_fall_save_path image_size
     line_num line st =
     (case st of (fall_start_frame, fall_end_frame, w) \<Rightarrow>
        if line_num = 1 then
          (case py_int (strip line) of
             None \<Rightarrow> Inl ValueError
           | Some v \<Rightarrow> Inr (Some v, fall_end_frame, w))
        else if line_num = 2 then
          (case py_int (strip line) of
             None \<Rightarrow> Inl ValueError
           | Some v \<Rightarrow> Inr (fall_start_frame, Some v, w))
        else Inr (fall_start_frame, fall_end_frame,
               data_record E video video_path annotation_path fall_save_path no_fall_save_path
                 image_size fall_start_frame fall_end_frame line_num line w))"

text \<open>\<^verbatim>\<open>for line_num, line in enumerate(file, start=1)\<close>; an exception ends the loop.\<close>

fun data_loop ::
  "env \<Rightarrow> (int \<Rightarrow> frame option) \<Rightarrow> string \<Rightarrow> string \<Rightarrow> string \<Rightarrow> string \<Rightarrow> int \<Rightarrow>
   nat \<Rightarrow> string list \<Rightarrow> int option \<times> int option \<times> world \<Rightarrow>
   exc option \<times> int option \<times> int option \<times> world" where
  "data_loop E video vp ap fp np sz line_num [] st = (None, st)"
| "data_loop E video vp ap fp np sz line_num (line # rest) st =
     (case data_line E video vp ap fp np sz line_num line st of
        Inl e \<Rightarrow> (Some e, st)
      | Inr st' \<Rightarrow> data_loop E video vp ap fp np sz (Suc line_num) rest st')"

text \<open>
  \<^verbatim>\<open>data.py\<close>, \<^verbatim>\<open>crop_frames_using_annotations\<close>: the exception that leaves the function,
  if any, and the world afterwards.
\<close>

definition data_crop_frames_using_annotations ::
  "env \<Rightarrow> string \<Rightarrow> string \<Rightarrow> string \<Rightarrow> string \<Rightarrow> int \<Rightarrow> world \<Rightarrow> exc option \<times> world" where
  "data_crop_frames_using_annotations E video_path annotation_path fall_save_path
     no_fall_save_path image_size w =
     (case video_capture E video_path of
        None \<Rightarrow> (None, say (Cannot_Open_Video video_path) w)
      | Some video \<Rightarrow>
          (case open_text E annotation_path of
             None \<Rightarrow> (Some FileNotFoundError, w)
           | Some file \<Rightarrow>
               (case data_loop E video video_path annotation_path fall_save_path
                       no_fall_save_path image_size 1 file (None, None, w) of
                  (e, _, _, w') \<Rightarrow> (e, w'))))"

text \<open>\<^verbatim>\<open>utils.py\<close>, the body of the loop: every line is a record line.\<close>

definition utils_record ::
  "env \<Rightarrow> (int \<Rightarrow> frame option) \<Rightarrow> string \<Rightarrow> string \<Rightarrow> string \<Rightarrow> int \<Rightarrow>
   nat \<Rightarrow> string \<Rightarrow> world \<Rightarrow> world" where
  "utils_record E video video_path annotation_path save_path image_size line_num line w =
     (if strip line = [] then say (Skipping_Empty_Line line_num annotation_path) w
      else let annotations = split_comma (strip line) in
      if length annotations < 6
      then say (Malformed_Annotation line_num annotation_path (strip line)) w
      else case parse_fields annotations of
        None \<Rightarrow> say (Error_Parsing_Line line_num annotation_path) w
      | Some (frame_num, x_center, y_center, width, height) \<Rightarrow>
          if width \<le> 0 \<or> height \<le> 0
          then say (Invalid_Box_Dimensions width height line_num) w
          else (case video (frame_num - 1) of
            None \<Rightarrow> say (Cannot_Read_Frame frame_num video_path) w
          | Some fr \<Rightarrow>
              (case crop_box fr x_center y_center width height of
                 (x_start, y_start, x_end, y_end) \<Rightarrow>
                   if x_start \<ge> x_end \<or> y_start \<ge> y_end
                   then say (Invalid_Crop_Dimensions frame_num) w
                   else (case cv_resize (Crop fr y_start y_end x_start x_end) image_size image_size of
                     None \<Rightarrow> say (Error_Processing_Frame frame_num) w
                   | Some cropped \<Rightarrow>
                       save_image E (path_join save_path (py_str frame_num @ ''.jpg''))
                         cropped frame_num w))))"

fun utils_loop ::
  "env \<Rightarrow> (int \<Rightarrow> frame option) \<Rightarrow> string \<Rightarrow> string \<Rightarrow> string \<Rightarrow> int \<Rightarrow>
   nat \<Rightarrow> string list \<Rightarrow> world \<Rightarrow> world" where
  "utils_loop E video vp ap sp sz line_num [] w = w"
| "utils_loop E video vp ap sp sz line_num (line # rest) w =
     utils_loop E video vp ap sp sz (Suc line_num) rest
       (utils_record E video vp ap sp sz line_num line w)"

definition utils_crop_frames_using_annotations ::
  "env \<Rightarrow> string \<Rightarrow> string \<Rightarrow> string \<Rightarrow> int \<Rightarrow> world \<Rightarrow> exc option \<times> world" where
  "utils_crop_frames_using_annotations E video_path annotation_path save_path image_size w =
     (case video_capture E video_path of
        None \<Rightarrow> (None, say (Cannot_Open_Video video_path) w)
      | Some video \<Rightarrow>
          (case open_text E annotation_path of
             None \<Rightarrow> (Some FileNotFoundError, w)
           | Some file \<Rightarrow>
               (None, utils_loop E video video_path annotation_path save_path image_size 1 file w)))"


section \<open>The batch drivers\<close>

definition endswith :: "string \<Rightarrow> string \<Rightarrow> bool" where
  "endswith s suffix = (length suffix \<le> length s \<and> drop (length s - length suffix) s = suffix)"

text \<open>\<^verbatim>\<open>p.rfind(c)\<close>: the last index of \<open>c\<close>, or \<open>-1\<close>.\<close>

fun rfind_from :: "char \<Rightarrow> string \<Rightarrow> nat \<Rightarrow> int \<Rightarrow> int" where
  "rfind_from c [] i found = found"
| "rfind_from c (x # xs) i found = rfind_from c xs (Suc i) (if x = c then int i else found)"

definition rfind :: "char \<Rightarrow> string \<Rightarrow> int" where
  "rfind c p = rfind_from c p 0 (- 1)"

text \<open>
  \<^verbatim>\<open>os.path.splitext(p)[0]\<close>: the path up to its last dot, when that dot comes after the
  last separator and after a character of the file name that is not a dot.
\<close>

definition splitext_root :: "string \<Rightarrow> string" where
  "splitext_root p =
     (let sepIndex = rfind (CHR ''/'') p; dotIndex = rfind (CHR ''.'') p
      in if dotIndex > sepIndex \<and>
            (\<exists>k \<in> set [nat (sepIndex + 1) ..< nat dotIndex]. p ! k \<noteq> CHR ''.'')
         then take (nat dotIndex) p else p)"

text \<open>\<^verbatim>\<open>data.py\<close>, \<^verbatim>\<open>process_all_rooms\<close>: the loop over the videos of one folder.\<close>

fun data_videos ::
  "env \<Rightarrow> string \<Rightarrow> string \<Rightarrow> string \<Rightarrow> string \<Rightarrow> int \<Rightarrow> string list \<Rightarrow> world \<Rightarrow>
   exc option \<times> world" where
  "data_videos E video_path fall_save_path no_fall_save_path annotation_path image_size [] w =
     (None, w)"
| "data_videos E video_path fall_save_path no_fall_save_path annotation_path image_size
     (video_file # rest) w =
     (let video_file_path = path_join video_path video_file;
          video_name = splitext_root video_file;
          annotation_file_path = path_join annotation_path (video_name @ ''.txt'')
      in if \<not> isfile E annotation_file_path
         then data_videos E video_path fall_save_path no_fall_save_path annotation_path
                image_size rest (say (Annotation_Missing video_file annotation_file_path) w)
         else case data_crop_frames_using_annotations E video_file_path annotation_file_path
                     (path_join fall_save_path video_name)
                     (path_join no_fall_save_path video_name) image_size
                     (say (Processing_Video video_file annotation_file_path) w) of
                (Some e, w') \<Rightarrow> (Some e, w')
              | (None, w') \<Rightarrow>
                  data_videos E video_path fall_save_path no_fall_save_path annotation_path
                    image_size rest w')"

fun data_process_all_rooms ::
  "env \<Rightarrow> (string \<times> string \<times> string \<times> string) list \<Rightarrow> int \<Rightarrow> world \<Rightarrow> exc option \<times> world" where
  "data_process_all_rooms E [] image_size w = (None, w)"
| "data_process_all_rooms E ((video_path, fall_save_path, no_fall_save_path, annotation_path) # rooms)
     image_size w =
     (case listdir E video_path of
        None \<Rightarrow> (Some FileNotFoundError, w)
      | Some names \<Rightarrow>
          (let video_files = filter (\<lambda>f. endswith f ''.avi'') names
           in case data_videos E video_path fall_save_path no_fall_save_path annotation_path
                     image_size video_files
                     (say (Processing_Videos (length video_files) video_path) w) of
                (Some e, w') \<Rightarrow> (Some e, w')
              | (None, w') \<Rightarrow> data_process_all_rooms E rooms image_size w'))"

text \<open>\<^verbatim>\<open>os.path.dirname(p)\<close>: the path up to its last separator, trailing separators removed
  unless nothing else is left.\<close>

definition dirname :: "string \<Rightarrow> string" where
  "dirname p =
     (let head = take (nat (rfind (CHR ''/'') p + 1)) p
      in if head \<noteq> [] \<and> (\<exists>c \<in> set head. c \<noteq> CHR ''/'')
         then rev (dropWhile (\<lambda>c. c = CHR ''/'') (rev head)) else head)"

text \<open>\<^verbatim>\<open>utils.py\<close>, \<^verbatim>\<open>process_all_rooms\<close>.\<close>

fun utils_videos ::
  "env \<Rightarrow> string \<Rightarrow> string \<Rightarrow> string \<Rightarrow> int \<Rightarrow> string list \<Rightarrow> world \<Rightarrow> exc option \<times> world" where
  "utils_videos E video_path frame_save_path annotation_path image_size [] w = (None, w)"
| "utils_videos E video_path frame_save_path annotation_path image_size (video_file # rest) w =
     (let video_file_path = path_join video_path video_file;
          video_name = splitext_root video_file;
          annotation_file_path = path_join annotation_path (video_name @ ''.txt'')
      in if \<not> isfile E annotation_file_path
         then utils_videos E video_path frame_save_path annotation_path image_size rest
                (say (Annotation_Missing video_file annotation_file_path) w)
         else case utils_crop_frames_using_annotations E video_file_path annotation_file_path
                     (path_join frame_save_path video_name) image_size
                     (say (Processing_Video video_file annotation_file_path) w) of
                (Some e, w') \<Rightarrow> (Some e, w')
              | (None, w') \<Rightarrow>
                  utils_videos E video_path frame_save_path annotation_path image_size rest w')"

fun utils_process_all_rooms ::
  "env \<Rightarrow> (string \<times> string) list \<Rightarrow> int \<Rightarrow> world \<Rightarrow> exc option \<times> world" where
  "utils_process_all_rooms E [] image_size w = (None, w)"
| "utils_process_all_rooms E ((video_path, frame_save_path) # rooms) image_size w =
     (let annotation_path = path_join (dirname video_path) ''Annotation_files'' in
      case listdir E video_path of
        None \<Rightarrow> (Some FileNotFoundError, w)
      | Some names \<Rightarrow>
          (let video_files = filter (\<lambda>f. endswith f ''.avi'') names
           in case utils_videos E video_path frame_save_path annotation_path image_size
                     video_files (say (Processing_Videos (length video_files) video_path) w) of
                (Some e, w') \<Rightarrow> (Some e, w')
              | (None, w') \<Rightarrow> utils_process_all_rooms E rooms image_size w'))"

section \<open>The dataset splitter\<close>

definition lower :: "string \<Rightarrow> string" where
  "lower s = map (\<lambda>c. let k = (of_char c :: nat) in if 65 \<le> k \<and> k \<le> 90 then char_of (k + 32) else c) s"

text \<open>\<^verbatim>\<open>os.path.basename(p)\<close>: what follows the last separator.\<close>

definition basename :: "string \<Rightarrow> string" where
  "basename p = rev (takeWhile (\<lambda>c. c \<noteq> CHR ''/'') (rev p))"

text \<open>The files of one directory tree that pass the extension filter, in walking order.\<close>

definition collect_dir :: "env \<Rightarrow> string list \<Rightarrow> string \<Rightarrow> string list" where
  "collect_dir E extensions directory =
     concat (map (\<lambda>(root, _, filenames).
                    map (path_join root)
                      (filter (\<lambda>file. \<exists>ext \<in> set extensions. endswith (lower file) ext) filenames))
                 (walk E directory))"

fun collect_loop :: "env \<Rightarrow> string list \<Rightarrow> string list \<Rightarrow> string list \<Rightarrow> world \<Rightarrow> string list \<times> world" where
  "collect_loop E extensions [] files w = (files, w)"
| "collect_loop E extensions (directory # rest) files w =
     (let files' = files @ collect_dir E extensions directory
      in collect_loop E extensions rest files' (say (Found_Images (length files') directory) w))"

definition collect_images_from_dirs :: "env \<Rightarrow> string list \<Rightarrow> world \<Rightarrow> string list \<times> world" where
  "collect_images_from_dirs E directories w =
     collect_loop E [''.jpg'', ''.png''] directories [] w"

text \<open>
  \<^verbatim>\<open>random.shuffle(x)\<close> as CPython runs it: for \<open>i\<close> from \<open>len(x) - 1\<close> down to \<open>1\<close>, swap
  \<open>x[i]\<close> with \<open>x[j]\<close> for a random \<open>j \<le> i\<close>. The random source is the stream of its
  future draws.
\<close>

fun shuffle_loop :: "nat \<Rightarrow> (nat \<Rightarrow> nat) \<Rightarrow> 'a list \<Rightarrow> 'a list \<times> (nat \<Rightarrow> nat)" where
  "shuffle_loop 0 g x = (x, g)"
| "shuffle_loop (Suc k) g x =
     (let i = Suc k; j = g 0 mod (i + 1)
      in shuffle_loop k (\<lambda>n. g (Suc n)) (x[i := x ! j, j := x ! i]))"

definition shuffle :: "(nat \<Rightarrow> nat) \<Rightarrow> 'a list \<Rightarrow> 'a list \<times> (nat \<Rightarrow> nat)" where
  "shuffle g x = shuffle_loop (length x - 1) g x"

text \<open>
  A Python float is a rational or is not finite. The product \<^verbatim>\<open>ratio * total\<close> rounds as
  the hardware does; it is a parameter \<open>fmul\<close> of the splitter. \<^verbatim>\<open>int(x)\<close> truncates toward
  zero and raises on a value that is not finite.
\<close>

datatype pyfloat = Finite rat | Infinity | NaN

definition int_of_float :: "pyfloat \<Rightarrow> exc + int" where
  "int_of_float x =
     (case x of
        Finite q \<Rightarrow> Inr (if 0 \<le> q then \<lfloor>q\<rfloor> else \<lceil>q\<rceil>)
      | Infinity \<Rightarrow> Inl OverflowError
      | NaN \<Rightarrow> Inl ValueError)"

text \<open>The three slices of one label's list (lines 72 to 74 and 77 to 79 of \<^verbatim>\<open>u1.py\<close>).\<close>

definition three_way :: "'a list \<Rightarrow> int \<Rightarrow> int \<Rightarrow> 'a list \<times> 'a list \<times> 'a list" where
  "three_way items train_n val_n =
     (py_slice items None (Some train_n),
      py_slice items (Some train_n) (Some (train_n + val_n)),
      py_slice items (Some (train_n + val_n)) None)"

text \<open>
  Lines 57 to 79 of \<^verbatim>\<open>u1.py\<close>: shuffle both lists, compute the four counts, cut. The
  result is \<open>((train, val, test) of fall, (train, val, test) of no_fall)\<close>.
\<close>

definition split_lists ::
  "(pyfloat \<Rightarrow> nat \<Rightarrow> pyfloat) \<Rightarrow> (nat \<Rightarrow> nat) \<Rightarrow> string list \<Rightarrow> string list \<Rightarrow> pyfloat \<Rightarrow> pyfloat \<Rightarrow>
   exc + (string list \<times> string list \<times> string list) \<times> (string list \<times> string list \<times> string list)" where
  "split_lists fmul g fall_files no_fall_files train_ratio val_ratio =
     (case shuffle g fall_files of (fall_files, g') \<Rightarrow>
     (case shuffle g' no_fall_files of (no_fall_files, _) \<Rightarrow>
     (let total_fall = length fall_files; total_no_fall = length no_fall_files in
     (case int_of_float (fmul train_ratio total_fall) of Inl e \<Rightarrow> Inl e | Inr train_fall \<Rightarrow>
     (case int_of_float (fmul val_ratio total_fall) of Inl e \<Rightarrow> Inl e | Inr val_fall \<Rightarrow>
     (case int_of_float (fmul train_ratio total_no_fall) of Inl e \<Rightarrow> Inl e | Inr train_no_fall \<Rightarrow>
     (case int_of_float (fmul val_ratio total_no_fall) of Inl e \<Rightarrow> Inl e | Inr val_no_fall \<Rightarrow>
        Inr (three_way fall_files train_fall val_fall,
             three_way no_fall_files train_no_fall val_no_fall))))))))"

text \<open>
  \<^verbatim>\<open>shutil.copy(src, dst)\<close> on a destination that is a file name: the source stays, the
  destination gets its content. It raises when the source is missing and when both
  names are the same file.
\<close>

definition copy_file :: "string \<Rightarrow> string \<Rightarrow> world \<Rightarrow> exc + world" where
  "copy_file src dst w =
     (case disk w src of
        None \<Rightarrow> Inl FileNotFoundError
      | Some content \<Rightarrow>
          if src = dst then Inl SameFileError
          else Inr (w\<lparr>disk := (disk w)(dst \<mapsto> content)\<rparr>))"

text \<open>The destination \<^verbatim>\<open>os.path.join(dest_base_dir, split, label, os.path.basename(file))\<close>.\<close>

definition dest_path :: "string \<Rightarrow> string \<Rightarrow> string \<Rightarrow> string \<Rightarrow> string" where
  "dest_path dest_base_dir split label file =
     path_join (path_join (path_join dest_base_dir split) label) (basename file)"

text \<open>One of the six copying loops; an exception ends it.\<close>

fun copy_loop :: "string \<Rightarrow> string \<Rightarrow> string \<Rightarrow> string list \<Rightarrow> world \<Rightarrow> exc option \<times> world" where
  "copy_loop dest_base_dir split label [] w = (None, w)"
| "copy_loop dest_base_dir split label (file # rest) w =
     (case copy_file file (dest_path dest_base_dir split label file) w of
        Inl e \<Rightarrow> (Some e, w)
      | Inr w' \<Rightarrow> copy_loop dest_base_dir split label rest w')"

definition and_then :: "exc option \<times> world \<Rightarrow> (world \<Rightarrow> exc option \<times> world) \<Rightarrow> exc option \<times> world" where
  "and_then r f = (case r of (Some e, w) \<Rightarrow> (Some e, w) | (None, w) \<Rightarrow> f w)"

text \<open>Lines 81 to 103 of \<^verbatim>\<open>u1.py\<close>: print the sizes, then copy group after group.\<close>

definition copy_groups ::
  "string \<Rightarrow> (string list \<times> string list \<times> string list) \<Rightarrow> (string list \<times> string list \<times> string list) \<Rightarrow>
   world \<Rightarrow> exc option \<times> world" where
  "copy_groups dest_base_dir fall no_fall w =
     (case fall of (train_fall_files, val_fall_files, test_fall_files) \<Rightarrow>
     (case no_fall of (train_no_fall_files, val_no_fall_files, test_no_fall_files) \<Rightarrow>
        and_then (and_then (and_then (and_then (and_then
          (copy_loop dest_base_dir ''train'' ''fall'' train_fall_files
             (say (Test_Set (length test_fall_files) (length test_no_fall_files))
               (say (Validation_Set (length val_fall_files) (length val_no_fall_files))
                 (say (Training_Set (length train_fall_files) (length train_no_fall_files)) w))))
          (copy_loop dest_base_dir ''val'' ''fall'' val_fall_files))
          (copy_loop dest_base_dir ''test'' ''fall'' test_fall_files))
          (copy_loop dest_base_dir ''train'' ''no_fall'' train_no_fall_files))
          (copy_loop dest_base_dir ''val'' ''no_fall'' val_no_fall_files))
          (copy_loop dest_base_dir ''test'' ''no_fall'' test_no_fall_files)))"

text \<open>\<^verbatim>\<open>u1.py\<close>, \<^verbatim>\<open>split_data\<close>.\<close>

definition split_data ::
  "env \<Rightarrow> (pyfloat \<Rightarrow> nat \<Rightarrow> pyfloat) \<Rightarrow> (nat \<Rightarrow> nat) \<Rightarrow> string list \<Rightarrow> string list \<Rightarrow> string \<Rightarrow>
   pyfloat \<Rightarrow> pyfloat \<Rightarrow> world \<Rightarrow> exc option \<times> world" where
  "split_data E fmul g source_fall_dirs source_no_fall_dirs dest_base_dir train_ratio val_ratio w =
     (case collect_images_from_dirs E source_fall_dirs w of (fall_files, w1) \<Rightarrow>
     (case collect_images_from_dirs E source_no_fall_dirs w1 of (no_fall_files, w2) \<Rightarrow>
        if length no_fall_files = 0 then (None, say No_Files_In_No_Fall w2)
        else if length fall_files = 0 then (None, say No_Files_In_Fall w2)
        else (case split_lists fmul g fall_files no_fall_files train_ratio val_ratio of
               Inl e \<Rightarrow> (Some e, w2)
             | Inr (fall, no_fall) \<Rightarrow> copy_groups dest_base_dir fall no_fall w2)))"

text \<open>
  The six copying loops seen as one sequence of jobs, a job being a source and its
  destination, in the order in which \<^verbatim>\<open>split_data\<close> runs them.
\<close>

fun copy_jobs :: "(string \<times> string) list \<Rightarrow> world \<Rightarrow> exc option \<times> world" where
  "copy_jobs [] w = (None, w)"
| "copy_jobs ((src, dst) # rest) w =
     (case copy_file src dst w of
        Inl e \<Rightarrow> (Some e, w)
      | Inr w' \<Rightarrow> copy_jobs rest w')"




section \<open>The specification's own notions\<close>

text \<open>Integer division truncating toward zero, as the specification words the crop box.\<close>

definition spec_trunc_div :: "int \<Rightarrow> int \<Rightarrow> int" where
  "spec_trunc_div a b = sgn a * sgn b * (\<bar>a\<bar> div \<bar>b\<bar>)"


section \<open>Concrete inputs\<close>

text \<open>
  A small room for running the definitions: one video of thirty frames of 320 by 240
  pixels, a codec that always writes, and the text files given as argument.
\<close>

definition demo_video :: "int \<Rightarrow> frame option" where
  "demo_video k =
     (if 0 \<le> k \<and> k < 30 then Some \<lparr>pixels = nat k, height_frame = 240, width_frame = 320\<rparr>
      else None)"

definition demo_image :: "nat \<Rightarrow> image" where
  "demo_image k =
     Resized_Linear (Crop \<lparr>pixels = k, height_frame = 240, width_frame = 320\<rparr> 0 240 0 320) 224 224"

definition demo_walk :: "string \<Rightarrow> (string \<times> string list \<times> string list) list" where
  "demo_walk directory =
     (if directory = ''frames/fall'' then
        [(''frames/fall'', [''v1'', ''v2''], []),
         (''frames/fall/v1'', [], [''1.jpg'', ''2.jpg'', ''3.jpg'']),
         (''frames/fall/v2'', [], [''1.jpg''])]
      else if directory = ''frames/no_fall'' then
        [(''frames/no_fall'', [], [''7.jpg'', ''8.JPG'', ''notes.txt''])]
      else if directory = ''single'' then [(''single'', [], [''1.jpg''])]
      else if directory = ''split/test/fall'' then [(''split/test/fall'', [], [''1.jpg''])]
      else [])"

definition demo_env :: "(string \<Rightarrow> string list option) \<Rightarrow> env" where
  "demo_env texts =
     \<lparr>video_capture = (\<lambda>p. if p = ''Videos/a.avi'' \<or> p = ''Videos/b.avi'' then Some demo_video else None),
      open_text = texts,
      imwrite = (\<lambda>p img. Written),
      listdir = (\<lambda>p. if p = ''Videos'' then Some [''a.avi'', ''b.avi'', ''readme.txt''] else None),
      isfile = (\<lambda>p. texts p \<noteq> None),
      walk = demo_walk\<rparr>"

definition blank_world :: world where
  "blank_world = \<lparr>out = [], disk = Map.empty\<rparr>"

definition demo_disk :: "string \<rightharpoonup> image" where
  "demo_disk =
     [''frames/fall/v1/1.jpg'' \<mapsto> demo_image 1, ''frames/fall/v1/2.jpg'' \<mapsto> demo_image 2,
      ''frames/fall/v1/3.jpg'' \<mapsto> demo_image 3, ''frames/fall/v2/1.jpg'' \<mapsto> demo_image 4,
      ''frames/no_fall/7.jpg'' \<mapsto> demo_image 7, ''frames/no_fall/8.JPG'' \<mapsto> demo_image 8,
      ''single/1.jpg'' \<mapsto> demo_image 11, ''split/test/fall/1.jpg'' \<mapsto> demo_image 12]"

text \<open>The float product on arguments where it is exact, and a source of random draws.\<close>

definition exact_mul :: "pyfloat \<Rightarrow> nat \<Rightarrow> pyfloat" where
  "exact_mul x n =
     (case x of
        Finite q \<Rightarrow> Finite (q * of_nat n)
      | Infinity \<Rightarrow> (if n = 0 then NaN else Infinity)
      | NaN \<Rightarrow> NaN)"

definition demo_draws :: "nat \<Rightarrow> nat" where
  "demo_draws n = 7 * n + 3"

text \<open>
  An annotation file with the fall interval 10 to 20, one good record, one record of
  width zero, and the same file with a first line that is no integer.
\<close>

definition demo_annotation :: "string list" where
  "demo_annotation =
     [''10'' @ [CHR 0x0A], ''20'' @ [CHR 0x0A], ''15,0,100,100,50,60'' @ [CHR 0x0A],
      ''5,0,100,100,0,60'']"

definition bad_header_annotation :: "string list" where
  "bad_header_annotation =
     [''start'' @ [CHR 0x0A], ''20'' @ [CHR 0x0A], ''15,0,100,100,50,60'' @ [CHR 0x0A]]"

text \<open>An annotation file that names frame 15 twice, with two different boxes.\<close>

definition repeated_frame_annotation :: "string list" where
  "repeated_frame_annotation =
     [''10'', ''20'', ''15,0,100,100,50,60'', ''3,0,100,100,50,60'', ''15,0,120,110,40,60'',
      ''16,0,100,100,50,60'']"

text \<open>An annotation file whose first line is a record.\<close>

definition record_first_annotation :: "string list" where
  "record_first_annotation = [''15,0,100,100,50,60'' @ [CHR 0x0A], ''20'']"

text \<open>The text files of a room with two videos, the first with the broken header.\<close>

definition demo_texts :: "string \<rightharpoonup> string list" where
  "demo_texts =
     [''Annotation_files/a.txt'' \<mapsto> bad_header_annotation,
      ''Annotation_files/b.txt'' \<mapsto> demo_annotation]"


section \<open>Basic facts\<close>

lemma out_say [simp]: "out (say d w) = out w @ [d]"
  by (simp add: say_def)

lemma disk_say [simp]: "disk (say d w) = disk w"
  by (simp add: say_def)

lemma disk_save_image:
  "disk (save_image E p img fn w) = (if imwrite E p img = Written then (disk w)(p \<mapsto> img) else disk w)"
  by (cases "imwrite E p img") (simp_all add: save_image_def)

lemma split_on_length: "1 \<le> length (split_on sep cur s)"
  by (induction s arbitrary: cur) auto

lemma split_comma_empty: "split_comma [] = [[]]"
  by (simp add: split_comma_def)

lemma fields_nonempty_line: "6 \<le> length (split_comma s) \<Longrightarrow> s \<noteq> []"
  by (auto simp: split_comma_def)

lemma trunc_div_pos: "0 < a \<Longrightarrow> spec_trunc_div a 2 = a div 2"
  by (simp add: spec_trunc_div_def)

text \<open>What a record line of \<^verbatim>\<open>data.py\<close> does once its five fields have parsed.\<close>

lemma data_record_parsed:
  assumes "6 \<le> length (split_comma (strip line))"
    and "parse_fields (split_comma (strip line)) = Some (fn, cx, cy, wd, ht)"
  shows "data_record E video vp ap fp np sz fs fe n line w =
     (if wd \<le> 0 \<or> ht \<le> 0 then say (Invalid_Box_Dimensions wd ht n) w
      else case video (fn - 1) of
        None \<Rightarrow> say (Cannot_Read_Frame fn vp) w
      | Some fr \<Rightarrow>
          (case crop_box fr cx cy wd ht of
             (x_start, y_start, x_end, y_end) \<Rightarrow>
               if x_start \<ge> x_end \<or> y_start \<ge> y_end
               then say (Invalid_Crop_Dimensions fn) w
               else (case cv_resize (Crop fr y_start y_end x_start x_end) sz sz of
                 None \<Rightarrow> say (Error_Processing_Frame fn) w
               | Some cropped \<Rightarrow>
                   (case (fs, fe) of
                      (Some s, Some e) \<Rightarrow>
                        save_image E
                          (path_join (if s \<le> fn \<and> fn \<le> e then fp else np) (py_str fn @ ''.jpg''))
                          cropped fn w
                    | _ \<Rightarrow> say (Error_Processing_Frame fn) w))))"
  using assms by (simp add: data_record_def)

lemma utils_record_parsed:
  assumes "6 \<le> length (split_comma (strip line))"
    and "parse_fields (split_comma (strip line)) = Some (fn, cx, cy, wd, ht)"
  shows "utils_record E video vp ap sp sz n line w =
     (if wd \<le> 0 \<or> ht \<le> 0 then say (Invalid_Box_Dimensions wd ht n) w
      else case video (fn - 1) of
        None \<Rightarrow> say (Cannot_Read_Frame fn vp) w
      | Some fr \<Rightarrow>
          (case crop_box fr cx cy wd ht of
             (x_start, y_start, x_end, y_end) \<Rightarrow>
               if x_start \<ge> x_end \<or> y_start \<ge> y_end
               then say (Invalid_Crop_Dimensions fn) w
               else (case cv_resize (Crop fr y_start y_end x_start x_end) sz sz of
                 None \<Rightarrow> say (Error_Processing_Frame fn) w
               | Some cropped \<Rightarrow>
                   save_image E (path_join sp (py_str fn @ ''.jpg'')) cropped fn w)))"
  using assms fields_nonempty_line[OF assms(1)] by (simp add: utils_record_def)


lemma of_char_digit: "k < 10 \<Longrightarrow> (of_char (char_of (48 + k :: nat)) :: nat) = 48 + k"
  by (simp only: of_char_of) simp

lemma digit_char_is_digit: "k < 10 \<Longrightarrow> is_digit (char_of (48 + k :: nat))"
  unfolding is_digit_def Let_def by (simp only: of_char_digit) simp

lemma digits_of_chars: "c \<in> set (digits_of n) \<Longrightarrow> is_digit c"
proof (induction n rule: digits_of.induct)
  case (1 n)
  show ?case
  proof (cases "n < 10")
    case True
    with "1.prems" have "c = char_of (48 + n)" by (simp add: digits_of.simps[of n])
    with True show ?thesis by (simp only: digit_char_is_digit)
  next
    case False
    with "1.prems" have "c \<in> set (digits_of (n div 10)) \<or> c = char_of (48 + n mod 10)"
      by (auto simp: digits_of.simps[of n])
    then show ?thesis
    proof
      assume "c \<in> set (digits_of (n div 10))"
      with "1.IH" False show ?thesis by simp
    next
      assume "c = char_of (48 + n mod 10)"
      moreover have "n mod 10 < 10" by simp
      ultimately show ?thesis by (simp only: digit_char_is_digit)
    qed
  qed
qed

lemma slash_not_digit: "\<not> is_digit (CHR ''/'')"
  by (simp add: is_digit_def)

lemma py_str_no_slash: "CHR ''/'' \<notin> set (py_str i)"
  using digits_of_chars slash_not_digit by (auto simp: py_str_def)

lemma jpg_name_no_slash: "CHR ''/'' \<notin> set (py_str i @ ''.jpg'')"
  using py_str_no_slash by simp

lemma digits_of_nonempty: "digits_of n \<noteq> []"
  by (subst digits_of.simps) simp

lemma jpg_name_not_absolute: "py_str i @ ''.jpg'' \<noteq> [] \<and> hd (py_str i @ ''.jpg'') \<noteq> CHR ''/''"
proof -
  have "py_str i \<noteq> []" by (simp add: py_str_def digits_of_nonempty)
  then have "hd (py_str i @ ''.jpg'') \<in> set (py_str i)" by simp
  with py_str_no_slash show ?thesis by auto
qed

text \<open>A joined path splits back at its last separator.\<close>

lemma takeWhile_stops:
  assumes "\<forall>c \<in> set xs. P c" and "ys = [] \<or> \<not> P (hd ys)"
  shows "takeWhile P (xs @ ys) = xs"
proof -
  have "takeWhile P ys = []" using assms(2) by (cases ys) auto
  with assms(1) show ?thesis by (simp add: takeWhile_append2)
qed

lemma basename_append:
  assumes "CHR ''/'' \<notin> set name" and "a = [] \<or> last a = CHR ''/''"
  shows "basename (a @ name) = name"
proof -
  have "rev a = [] \<or> \<not> (hd (rev a) \<noteq> CHR ''/'')"
    using assms(2) by (auto simp: hd_rev)
  moreover have "\<forall>c \<in> set (rev name). c \<noteq> CHR ''/''" using assms(1) by auto
  ultimately have "takeWhile (\<lambda>c. c \<noteq> CHR ''/'') (rev name @ rev a) = rev name"
    by (rule takeWhile_stops[rotated])
  then show ?thesis by (simp add: basename_def)
qed

lemma path_join_relative:
  assumes "name = [] \<or> hd name \<noteq> CHR ''/''"
  shows "path_join d name = path_join d [] @ name"
  using assms by (auto simp: path_join_def)

lemma dir_prefix_shape: "path_join d [] = [] \<or> last (path_join d []) = CHR ''/''"
  by (auto simp: path_join_def)

lemma no_slash_relative: "CHR ''/'' \<notin> set name \<Longrightarrow> name = [] \<or> hd name \<noteq> CHR ''/''"
  by (cases name) auto

lemma basename_path_join:
  assumes "CHR ''/'' \<notin> set name"
  shows "basename (path_join d name) = name"
proof -
  have "path_join d name = path_join d [] @ name"
    by (rule path_join_relative[OF no_slash_relative[OF assms]])
  then show ?thesis using basename_append[OF assms dir_prefix_shape] by simp
qed

lemma path_join_inject:
  assumes "CHR ''/'' \<notin> set n1" "CHR ''/'' \<notin> set n2" "path_join d1 n1 = path_join d2 n2"
  shows "n1 = n2 \<and> path_join d1 [] = path_join d2 []"
proof -
  have "n1 = n2" using assms basename_path_join by metis
  moreover have "path_join d1 n1 = path_join d1 [] @ n1"
    by (rule path_join_relative[OF no_slash_relative[OF assms(1)]])
  moreover have "path_join d2 n2 = path_join d2 [] @ n2"
    by (rule path_join_relative[OF no_slash_relative[OF assms(2)]])
  ultimately show ?thesis using assms(3) by simp
qed

text \<open>
  A record line either prints one line and leaves the disk alone, or saves the resized
  crop of the frame it names.
\<close>

lemma data_record_cases:
  obtains (quiet) d where "data_record E video vp ap fp np sz fs fe n line w = say d w"
  | (saved) fn cx cy wd ht fr x0 y0 x1 y1 s e where
      "6 \<le> length (split_comma (strip line))"
      "parse_fields (split_comma (strip line)) = Some (fn, cx, cy, wd, ht)"
      "0 < wd" "0 < ht" "video (fn - 1) = Some fr"
      "crop_box fr cx cy wd ht = (x0, y0, x1, y1)" "x0 < x1" "y0 < y1" "0 < sz"
      "fs = Some s" "fe = Some e"
      "data_record E video vp ap fp np sz fs fe n line w =
        save_image E (path_join (if s \<le> fn \<and> fn \<le> e then fp else np) (py_str fn @ ''.jpg''))
          (Resized_Linear (Crop fr y0 y1 x0 x1) sz sz) fn w"
proof (cases "6 \<le> length (split_comma (strip line))")
  case False
  then have "data_record E video vp ap fp np sz fs fe n line w =
     say (Malformed_Annotation n ap (strip line)) w"
    by (simp add: data_record_def)
  then show ?thesis by (rule quiet)
next
  case len: True
  show ?thesis
  proof (cases "parse_fields (split_comma (strip line))")
    case None
    with len have "data_record E video vp ap fp np sz fs fe n line w =
       say (Error_Parsing_Line n ap) w"
      by (simp add: data_record_def)
    then show ?thesis by (rule quiet)
  next
    case (Some t)
    obtain fn cx cy wd ht where t: "t = (fn, cx, cy, wd, ht)" by (cases t) auto
    note parsed = Some[unfolded t]
    note rec = data_record_parsed[OF len parsed, of E video vp ap fp np sz fs fe n w]
    show ?thesis
    proof (cases "wd \<le> 0 \<or> ht \<le> 0")
      case True
      with rec have "data_record E video vp ap fp np sz fs fe n line w =
         say (Invalid_Box_Dimensions wd ht n) w" by simp
      then show ?thesis by (rule quiet)
    next
      case box: False
      show ?thesis
      proof (cases "video (fn - 1)")
        case None
        with rec box have "data_record E video vp ap fp np sz fs fe n line w =
           say (Cannot_Read_Frame fn vp) w" by simp
        then show ?thesis by (rule quiet)
      next
        case fr: (Some fr)
        obtain x0 y0 x1 y1 where cb: "crop_box fr cx cy wd ht = (x0, y0, x1, y1)"
          by (cases "crop_box fr cx cy wd ht") auto
        show ?thesis
        proof (cases "x0 \<ge> x1 \<or> y0 \<ge> y1")
          case True
          with rec box fr cb have "data_record E video vp ap fp np sz fs fe n line w =
             say (Invalid_Crop_Dimensions fn) w" by simp
          then show ?thesis by (rule quiet)
        next
          case ok: False
          show ?thesis
          proof (cases "cv_resize (Crop fr y0 y1 x0 x1) sz sz")
            case None
            with rec box fr cb ok have "data_record E video vp ap fp np sz fs fe n line w =
               say (Error_Processing_Frame fn) w" by simp
            then show ?thesis by (rule quiet)
          next
            case rs: (Some c)
            then have c: "c = Resized_Linear (Crop fr y0 y1 x0 x1) sz sz" and sz: "0 < sz"
              by (auto simp: cv_resize_def split: if_splits)
            show ?thesis
            proof (cases fs)
              case None
              with rec box fr cb ok rs have "data_record E video vp ap fp np sz fs fe n line w =
                 say (Error_Processing_Frame fn) w" by simp
              then show ?thesis by (rule quiet)
            next
              case s: (Some s)
              show ?thesis
              proof (cases fe)
                case None
                with rec box fr cb ok rs s have "data_record E video vp ap fp np sz fs fe n line w =
                   say (Error_Processing_Frame fn) w" by simp
                then show ?thesis by (rule quiet)
              next
                case e: (Some e)
                have "data_record E video vp ap fp np sz fs fe n line w =
                   save_image E (path_join (if s \<le> fn \<and> fn \<le> e then fp else np) (py_str fn @ ''.jpg''))
                     (Resized_Linear (Crop fr y0 y1 x0 x1) sz sz) fn w"
                  using rec box fr cb ok rs c s e by simp
                moreover have "0 < wd" "0 < ht" "x0 < x1" "y0 < y1" using box ok by auto
                ultimately show ?thesis using saved[OF len parsed _ _ fr cb _ _ sz s e] by blast
              qed
            qed
          qed
        qed
      qed
    qed
  qed
qed

lemma utils_record_cases:
  obtains (quiet) d where "utils_record E video vp ap sp sz n line w = say d w"
  | (saved) fn cx cy wd ht fr x0 y0 x1 y1 where
      "6 \<le> length (split_comma (strip line))"
      "parse_fields (split_comma (strip line)) = Some (fn, cx, cy, wd, ht)"
      "0 < wd" "0 < ht" "video (fn - 1) = Some fr"
      "crop_box fr cx cy wd ht = (x0, y0, x1, y1)" "x0 < x1" "y0 < y1" "0 < sz"
      "utils_record E video vp ap sp sz n line w =
        save_image E (path_join sp (py_str fn @ ''.jpg''))
          (Resized_Linear (Crop fr y0 y1 x0 x1) sz sz) fn w"
proof (cases "6 \<le> length (split_comma (strip line))")
  case False
  then have "utils_record E video vp ap sp sz n line w = say (Skipping_Empty_Line n ap) w \<or>
     utils_record E video vp ap sp sz n line w = say (Malformed_Annotation n ap (strip line)) w"
    by (simp add: utils_record_def)
  then show ?thesis using quiet by blast
next
  case len: True
  show ?thesis
  proof (cases "parse_fields (split_comma (strip line))")
    case None
    with len fields_nonempty_line[OF len] have "utils_record E video vp ap sp sz n line w =
       say (Error_Parsing_Line n ap) w"
      by (simp add: utils_record_def)
    then show ?thesis by (rule quiet)
  next
    case (Some t)
    obtain fn cx cy wd ht where t: "t = (fn, cx, cy, wd, ht)" by (cases t) auto
    note parsed = Some[unfolded t]
    note rec = utils_record_parsed[OF len parsed, of E video vp ap sp sz n w]
    show ?thesis
    proof (cases "wd \<le> 0 \<or> ht \<le> 0")
      case True
      with rec have "utils_record E video vp ap sp sz n line w =
         say (Invalid_Box_Dimensions wd ht n) w" by simp
      then show ?thesis by (rule quiet)
    next
      case box: False
      show ?thesis
      proof (cases "video (fn - 1)")
        case None
        with rec box have "utils_record E video vp ap sp sz n line w =
           say (Cannot_Read_Frame fn vp) w" by simp
        then show ?thesis by (rule quiet)
      next
        case fr: (Some fr)
        obtain x0 y0 x1 y1 where cb: "crop_box fr cx cy wd ht = (x0, y0, x1, y1)"
          by (cases "crop_box fr cx cy wd ht") auto
        show ?thesis
        proof (cases "x0 \<ge> x1 \<or> y0 \<ge> y1")
          case True
          with rec box fr cb have "utils_record E video vp ap sp sz n line w =
             say (Invalid_Crop_Dimensions fn) w" by simp
          then show ?thesis by (rule quiet)
        next
          case ok: False
          show ?thesis
          proof (cases "cv_resize (Crop fr y0 y1 x0 x1) sz sz")
            case None
            with rec box fr cb ok have "utils_record E video vp ap sp sz n line w =
               say (Error_Processing_Frame fn) w" by simp
            then show ?thesis by (rule quiet)
          next
            case rs: (Some c)
            then have c: "c = Resized_Linear (Crop fr y0 y1 x0 x1) sz sz" and sz: "0 < sz"
              by (auto simp: cv_resize_def split: if_splits)
            have "utils_record E video vp ap sp sz n line w =
               save_image E (path_join sp (py_str fn @ ''.jpg''))
                 (Resized_Linear (Crop fr y0 y1 x0 x1) sz sz) fn w"
              using rec box fr cb ok rs c by simp
            moreover have "0 < wd" "0 < ht" "x0 < x1" "y0 < y1" using box ok by auto
            ultimately show ?thesis using saved[OF len parsed _ _ fr cb _ _ sz] by blast
          qed
        qed
      qed
    qed
  qed
qed

lemma data_loop_record_step:
  "3 \<le> n \<Longrightarrow>
   data_loop E video vp ap fp np sz n (line # rest) (fs, fe, w) =
   data_loop E video vp ap fp np sz (Suc n) rest
     (fs, fe, data_record E video vp ap fp np sz fs fe n line w)"
  by (simp add: data_line_def)

lemma parse_fields_width_height:
  "parse_fields annotations = Some (fn, cx, cy, wd, ht) \<Longrightarrow>
   py_int (annotations ! 4) = Some wd \<and> py_int (annotations ! 5) = Some ht"
  by (auto simp: parse_fields_def split: option.splits)

section \<open>Claims about the frame extractor\<close>

text \<open>
  Claim C5. A line whose width field parses to a value that is not positive, or whose
  height field does, writes no image in either variant: the disk is as before, exactly one
  line is printed (the one about the box dimensions when all five fields parse), and the
  loop goes on with the next line.
\<close>

theorem nonpositive_box_skipped:
  assumes annotations: "annotations = split_comma (strip line)"
    and box: "(4 < length annotations \<and> py_int (annotations ! 4) = Some wd \<and> wd \<le> 0) \<or>
              (5 < length annotations \<and> py_int (annotations ! 5) = Some ht \<and> ht \<le> 0)"
  shows "\<exists>d. data_record E video vp ap fp np sz fs fe n line w = say d w \<and>
             utils_record E video vp ap sp sz n line w = say d w \<and>
             disk (say d w) = disk w \<and> out (say d w) = out w @ [d] \<and>
             (3 \<le> n \<longrightarrow>
                data_loop E video vp ap fp np sz n (line # rest) (fs, fe, w) =
                data_loop E video vp ap fp np sz (Suc n) rest (fs, fe, say d w)) \<and>
             utils_loop E video vp ap sp sz n (line # rest) w =
               utils_loop E video vp ap sp sz (Suc n) rest (say d w) \<and>
             (6 \<le> length annotations \<longrightarrow>
                (\<forall>fn cx cy wd' ht'. parse_fields annotations = Some (fn, cx, cy, wd', ht') \<longrightarrow>
                   d = Invalid_Box_Dimensions wd' ht' n))"
proof -
  have nonempty: "strip line \<noteq> []"
  proof
    assume "strip line = []"
    then have "length annotations = 1" using annotations by (simp add: split_comma_def)
    with box show False by auto
  qed
  define d where "d =
    (if length annotations < 6 then Malformed_Annotation n ap (strip line)
     else case parse_fields annotations of
       None \<Rightarrow> Error_Parsing_Line n ap
     | Some (fn, cx, cy, wd', ht') \<Rightarrow> Invalid_Box_Dimensions wd' ht' n)"
  have bad: "wd' \<le> 0 \<or> ht' \<le> 0"
    if "parse_fields annotations = Some (fn, cx, cy, wd', ht')" for fn cx cy wd' ht'
    using parse_fields_width_height[OF that] box by auto
  have data: "data_record E video vp ap fp np sz fs fe n line w = say d w"
  proof (cases "length annotations < 6")
    case True
    then show ?thesis using annotations by (simp add: data_record_def d_def)
  next
    case len: False
    show ?thesis
    proof (cases "parse_fields annotations")
      case None
      with len show ?thesis using annotations by (simp add: data_record_def d_def)
    next
      case (Some t)
      obtain fn cx cy wd' ht' where t: "t = (fn, cx, cy, wd', ht')" by (cases t) auto
      from bad[OF Some[unfolded t]] len Some t show ?thesis
        using annotations by (simp add: data_record_def d_def)
    qed
  qed
  have utils: "utils_record E video vp ap sp sz n line w = say d w"
  proof (cases "length annotations < 6")
    case True
    then show ?thesis using annotations nonempty by (simp add: utils_record_def d_def)
  next
    case len: False
    show ?thesis
    proof (cases "parse_fields annotations")
      case None
      with len show ?thesis using annotations nonempty by (simp add: utils_record_def d_def)
    next
      case (Some t)
      obtain fn cx cy wd' ht' where t: "t = (fn, cx, cy, wd', ht')" by (cases t) auto
      from bad[OF Some[unfolded t]] len Some t show ?thesis
        using annotations nonempty by (simp add: utils_record_def d_def)
    qed
  qed
  have named: "6 \<le> length annotations \<longrightarrow>
      (\<forall>fn cx cy wd' ht'. parse_fields annotations = Some (fn, cx, cy, wd', ht') \<longrightarrow>
         d = Invalid_Box_Dimensions wd' ht' n)"
    by (simp add: d_def)
  have dl: "3 \<le> n \<longrightarrow>
      data_loop E video vp ap fp np sz n (line # rest) (fs, fe, w) =
      data_loop E video vp ap fp np sz (Suc n) rest (fs, fe, say d w)"
    using data_loop_record_step[of n E video vp ap fp np sz line rest fs fe w] data by simp
  have ul: "utils_loop E video vp ap sp sz n (line # rest) w =
      utils_loop E video vp ap sp sz (Suc n) rest (say d w)"
    using utils by simp
  from data utils named dl ul show ?thesis
    by (intro exI[of _ d] conjI) simp_all
qed


theorem nonpositive_box_skipped_witness:
  "(4 < length (split_comma (strip ''5,0,100,100,0,60'')) \<and>
    py_int (split_comma (strip ''5,0,100,100,0,60'') ! 4) = Some 0 \<and> (0::int) \<le> 0) \<and>
   (\<exists>d. data_record (demo_env Map.empty) demo_video ''Videos/a.avi'' ''a.txt'' ''fall'' ''no_fall'' 224
           (Some 10) (Some 20) 3 ''5,0,100,100,0,60'' blank_world = say d blank_world \<and>
        utils_record (demo_env Map.empty) demo_video ''Videos/a.avi'' ''a.txt'' ''frames'' 224
           3 ''5,0,100,100,0,60'' blank_world = say d blank_world \<and>
        d = Invalid_Box_Dimensions 0 60 3)"
proof -
  have h: "(4 < length (split_comma (strip ''5,0,100,100,0,60'')) \<and>
      py_int (split_comma (strip ''5,0,100,100,0,60'') ! 4) = Some 0 \<and> (0::int) \<le> 0) \<or>
     (5 < length (split_comma (strip ''5,0,100,100,0,60'')) \<and>
      py_int (split_comma (strip ''5,0,100,100,0,60'') ! 5) = Some 7 \<and> (7::int) \<le> 0)"
    by code_simp
  have p: "parse_fields (split_comma (strip ''5,0,100,100,0,60'')) = Some (5, 100, 100, 0, 60)"
    by code_simp
  have l: "6 \<le> length (split_comma (strip ''5,0,100,100,0,60''))"
    by code_simp
  from nonpositive_box_skipped[OF refl h, of "demo_env Map.empty" demo_video "''Videos/a.avi''"
      "''a.txt''" "''fall''" "''no_fall''" 224 "Some 10" "Some 20" 3 blank_world "''frames''" "[]"]
  obtain d where d: "data_record (demo_env Map.empty) demo_video ''Videos/a.avi'' ''a.txt'' ''fall'' ''no_fall'' 224
           (Some 10) (Some 20) 3 ''5,0,100,100,0,60'' blank_world = say d blank_world"
        "utils_record (demo_env Map.empty) demo_video ''Videos/a.avi'' ''a.txt'' ''frames'' 224
           3 ''5,0,100,100,0,60'' blank_world = say d blank_world"
        "6 \<le> length (split_comma (strip ''5,0,100,100,0,60'')) \<longrightarrow>
                (\<forall>fn cx cy wd' ht'. parse_fields (split_comma (strip ''5,0,100,100,0,60'')) = Some (fn, cx, cy, wd', ht') \<longrightarrow>
                   d = Invalid_Box_Dimensions wd' ht' 3)"
    by blast
  from d(3) l p have "d = Invalid_Box_Dimensions 0 60 3" by blast
  moreover have "4 < length (split_comma (strip ''5,0,100,100,0,60'')) \<and>
    py_int (split_comma (strip ''5,0,100,100,0,60'') ! 4) = Some 0 \<and> (0::int) \<le> 0"
    by code_simp
  ultimately show ?thesis using d(1,2) by blast
qed

text \<open>
  Claim C1. In the two-directory extractor a record line changes the disk at one path only:
  the file named after the frame number, in the fall directory when the frame number lies
  in the fall interval and in the no_fall directory otherwise. A second record with the
  same frame number and any other box changes the same path. When the two directories
  differ, that path is no file of the other directory.
\<close>

theorem fall_interval_decides_directory:
  assumes parsed: "parse_fields (split_comma (strip line)) = Some (fn, cx, cy, wd, ht)"
    and parsed': "parse_fields (split_comma (strip line')) = Some (fn, cx', cy', wd', ht')"
    and written: "disk (data_record E video vp ap fp np sz (Some s) (Some e) n line w) p \<noteq> disk w p"
    and written': "disk (data_record E video vp ap fp np sz (Some s) (Some e) n' line' w') p' \<noteq> disk w' p'"
  shows "(s \<le> fn \<and> fn \<le> e \<longrightarrow> p = path_join fp (py_str fn @ ''.jpg'')) \<and>
         (\<not> (s \<le> fn \<and> fn \<le> e) \<longrightarrow> p = path_join np (py_str fn @ ''.jpg'')) \<and>
         p' = p \<and>
         (path_join fp [] \<noteq> path_join np [] \<longrightarrow>
            (\<forall>name. CHR ''/'' \<notin> set name \<longrightarrow>
               p \<noteq> path_join (if s \<le> fn \<and> fn \<le> e then np else fp) name))"
proof -
  have target: "q = path_join (if s \<le> fn \<and> fn \<le> e then fp else np) (py_str fn @ ''.jpg'')"
    if p: "parse_fields (split_comma (strip l)) = Some (fn, a, b, c, d)"
      and ch: "disk (data_record E video vp ap fp np sz (Some s) (Some e) k l u) q \<noteq> disk u q"
    for l a b c d k u q
  proof (cases rule: data_record_cases[of E video vp ap fp np sz "Some s" "Some e" k l u])
    case (quiet d)
    with ch show ?thesis by simp
  next
    case (saved fn2 cx2 cy2 wd2 ht2 fr x0 y0 x1 y1 s2 e2)
    from saved(2) p have "fn2 = fn" by simp
    moreover from saved(10,11) have "s2 = s" "e2 = e" by simp_all
    ultimately show ?thesis using ch saved(12)
      by (auto simp: disk_save_image split: if_splits)
  qed
  have p: "p = path_join (if s \<le> fn \<and> fn \<le> e then fp else np) (py_str fn @ ''.jpg'')"
    by (rule target[OF parsed written])
  have p': "p' = path_join (if s \<le> fn \<and> fn \<le> e then fp else np) (py_str fn @ ''.jpg'')"
    by (rule target[OF parsed' written'])
  have other: "p \<noteq> path_join (if s \<le> fn \<and> fn \<le> e then np else fp) name"
    if dirs: "path_join fp [] \<noteq> path_join np []" and name: "CHR ''/'' \<notin> set name" for name
  proof
    assume "p = path_join (if s \<le> fn \<and> fn \<le> e then np else fp) name"
    with p have "path_join (if s \<le> fn \<and> fn \<le> e then fp else np) (py_str fn @ ''.jpg'') =
        path_join (if s \<le> fn \<and> fn \<le> e then np else fp) name" by simp
    from path_join_inject[OF jpg_name_no_slash name this] dirs show False
      by (auto split: if_splits)
  qed
  from p p' other show ?thesis by auto
qed

theorem fall_interval_decides_directory_witness:
  "parse_fields (split_comma (strip ''15,0,100,100,50,60'')) = Some (15, 100, 100, 50, 60) \<and>
   parse_fields (split_comma (strip ''15,0,120,110,40,60'')) = Some (15, 120, 110, 40, 60) \<and>
   disk (data_record (demo_env Map.empty) demo_video ''Videos/a.avi'' ''a.txt'' ''fall'' ''no_fall''
           224 (Some 10) (Some 20) 3 ''15,0,100,100,50,60'' blank_world) ''fall/15.jpg''
     \<noteq> disk blank_world ''fall/15.jpg'' \<and>
   disk (data_record (demo_env Map.empty) demo_video ''Videos/a.avi'' ''a.txt'' ''fall'' ''no_fall''
           224 (Some 10) (Some 20) 4 ''15,0,120,110,40,60'' blank_world) ''fall/15.jpg''
     \<noteq> disk blank_world ''fall/15.jpg'' \<and>
   ''fall/15.jpg'' = path_join ''fall'' (py_str 15 @ ''.jpg'') \<and>
   ''fall/15.jpg'' \<noteq> path_join ''no_fall'' ''15.jpg''"
proof -
  have p1: "parse_fields (split_comma (strip ''15,0,100,100,50,60'')) = Some (15, 100, 100, 50, 60)"
    by code_simp
  have p2: "parse_fields (split_comma (strip ''15,0,120,110,40,60'')) = Some (15, 120, 110, 40, 60)"
    by code_simp
  have w1: "disk (data_record (demo_env Map.empty) demo_video ''Videos/a.avi'' ''a.txt'' ''fall''
           ''no_fall'' 224 (Some 10) (Some 20) 3 ''15,0,100,100,50,60'' blank_world) ''fall/15.jpg''
     \<noteq> disk blank_world ''fall/15.jpg''"
    by code_simp
  have w2: "disk (data_record (demo_env Map.empty) demo_video ''Videos/a.avi'' ''a.txt'' ''fall''
           ''no_fall'' 224 (Some 10) (Some 20) 4 ''15,0,120,110,40,60'' blank_world) ''fall/15.jpg''
     \<noteq> disk blank_world ''fall/15.jpg''"
    by code_simp
  have dirs: "path_join ''fall'' [] \<noteq> path_join ''no_fall'' []" by code_simp
  note t = fall_interval_decides_directory[OF p1 p2 w1 w2]
  have inside: "((10::int) \<le> 15 \<and> (15::int) \<le> 20) = True" by simp
  from t have e1: "''fall/15.jpg'' = path_join ''fall'' (py_str 15 @ ''.jpg'')"
    unfolding inside by blast
  from t dirs have e2: "\<forall>name. CHR ''/'' \<notin> set name \<longrightarrow> ''fall/15.jpg'' \<noteq> path_join ''no_fall'' name"
    unfolding inside if_True by blast
  have "CHR ''/'' \<notin> set ''15.jpg''" by simp
  with e2 have e3: "''fall/15.jpg'' \<noteq> path_join ''no_fall'' ''15.jpg''" by blast
  from p1 p2 w1 w2 e1 e3 show ?thesis by blast
qed


text \<open>
  Claim C4. For a record with positive width and height and a decoded frame, the crop
  box is the clamped box of the specification, with the division truncating toward
  zero; a box that is empty in either direction writes nothing and prints the crop
  diagnostic, and otherwise the sub-rectangle handed to the resizing is exactly that box.
\<close>

theorem crop_box_clamped_or_skipped:
  assumes len: "6 \<le> length (split_comma (strip line))"
    and parsed: "parse_fields (split_comma (strip line)) = Some (fn, cx, cy, wd, ht)"
    and pos: "0 < wd" "0 < ht"
    and fr: "video (fn - 1) = Some fr"
    and box: "x_start = max 0 (cx - spec_trunc_div wd 2)"
             "y_start = max 0 (cy - spec_trunc_div ht 2)"
             "x_end = min (int (width_frame fr)) (cx + spec_trunc_div wd 2)"
             "y_end = min (int (height_frame fr)) (cy + spec_trunc_div ht 2)"
  shows "crop_box fr cx cy wd ht = (x_start, y_start, x_end, y_end) \<and>
     (x_start \<ge> x_end \<or> y_start \<ge> y_end \<longrightarrow>
        data_record E video vp ap fp np sz fs fe n line w = say (Invalid_Crop_Dimensions fn) w \<and>
        utils_record E video vp ap sp sz n line w = say (Invalid_Crop_Dimensions fn) w \<and>
        disk (say (Invalid_Crop_Dimensions fn) w) = disk w) \<and>
     (x_start < x_end \<and> y_start < y_end \<longrightarrow>
        utils_record E video vp ap sp sz n line w =
          (case cv_resize (Crop fr y_start y_end x_start x_end) sz sz of
             None \<Rightarrow> say (Error_Processing_Frame fn) w
           | Some cropped \<Rightarrow>
               save_image E (path_join sp (py_str fn @ ''.jpg'')) cropped fn w) \<and>
        data_record E video vp ap fp np sz (Some s) (Some e) n line w =
          (case cv_resize (Crop fr y_start y_end x_start x_end) sz sz of
             None \<Rightarrow> say (Error_Processing_Frame fn) w
           | Some cropped \<Rightarrow>
               save_image E
                 (path_join (if s \<le> fn \<and> fn \<le> e then fp else np) (py_str fn @ ''.jpg''))
                 cropped fn w))"
proof -
  have cb: "crop_box fr cx cy wd ht = (x_start, y_start, x_end, y_end)"
    using pos box by (simp add: crop_box_def trunc_div_pos)
  have notbad: "\<not> (wd \<le> 0 \<or> ht \<le> 0)" using pos by simp
  note d = data_record_parsed[OF len parsed]
  note u = utils_record_parsed[OF len parsed]
  have degenerate: "data_record E video vp ap fp np sz fs fe n line w = say (Invalid_Crop_Dimensions fn) w \<and>
        utils_record E video vp ap sp sz n line w = say (Invalid_Crop_Dimensions fn) w \<and>
        disk (say (Invalid_Crop_Dimensions fn) w) = disk w"
    if "x_start \<ge> x_end \<or> y_start \<ge> y_end"
    using that notbad fr cb by (simp add: d u)
  have proper: "utils_record E video vp ap sp sz n line w =
          (case cv_resize (Crop fr y_start y_end x_start x_end) sz sz of
             None \<Rightarrow> say (Error_Processing_Frame fn) w
           | Some cropped \<Rightarrow>
               save_image E (path_join sp (py_str fn @ ''.jpg'')) cropped fn w) \<and>
        data_record E video vp ap fp np sz (Some s) (Some e) n line w =
          (case cv_resize (Crop fr y_start y_end x_start x_end) sz sz of
             None \<Rightarrow> say (Error_Processing_Frame fn) w
           | Some cropped \<Rightarrow>
               save_image E
                 (path_join (if s \<le> fn \<and> fn \<le> e then fp else np) (py_str fn @ ''.jpg''))
                 cropped fn w)"
    if "x_start < x_end \<and> y_start < y_end"
    using that notbad fr cb by (simp add: d u split: option.splits)
  from cb degenerate proper show ?thesis by blast
qed

theorem crop_box_clamped_or_skipped_witness:
  "(6 \<le> length (split_comma (strip ''3,0,400,100,50,60'')) \<and>
    parse_fields (split_comma (strip ''3,0,400,100,50,60'')) = Some (3, 400, 100, 50, 60) \<and>
    (0::int) < 50 \<and> (0::int) < 60 \<and>
    demo_video (3 - 1) = Some \<lparr>pixels = 2, height_frame = 240, width_frame = 320\<rparr> \<and>
    max 0 (400 - spec_trunc_div 50 2) \<ge> min (int 320) (400 + spec_trunc_div 50 2)) \<and>
   crop_box \<lparr>pixels = 2, height_frame = 240, width_frame = 320\<rparr> 400 100 50 60 = (375, 70, 320, 130) \<and>
   utils_record (demo_env Map.empty) demo_video ''Videos/a.avi'' ''a.txt'' ''frames'' 224 3
     ''3,0,400,100,50,60'' blank_world = say (Invalid_Crop_Dimensions 3) blank_world \<and>
   data_record (demo_env Map.empty) demo_video ''Videos/a.avi'' ''a.txt'' ''fall'' ''no_fall'' 224
     (Some 10) (Some 20) 3 ''3,0,400,100,50,60'' blank_world = say (Invalid_Crop_Dimensions 3) blank_world"
proof -
  let ?fr = "\<lparr>pixels = 2, height_frame = 240, width_frame = 320\<rparr>"
  have len: "6 \<le> length (split_comma (strip ''3,0,400,100,50,60''))" by code_simp
  have parsed: "parse_fields (split_comma (strip ''3,0,400,100,50,60'')) = Some (3, 400, 100, 50, 60)"
    by code_simp
  have fr: "demo_video (3 - 1) = Some ?fr" by (simp add: demo_video_def)
  have x0: "(375::int) = max 0 (400 - spec_trunc_div 50 2)" by (simp add: spec_trunc_div_def)
  have y0: "(70::int) = max 0 (100 - spec_trunc_div 60 2)" by (simp add: spec_trunc_div_def)
  have x1: "(320::int) = min (int (width_frame ?fr)) (400 + spec_trunc_div 50 2)"
    by (simp add: spec_trunc_div_def)
  have y1: "(130::int) = min (int (height_frame ?fr)) (100 + spec_trunc_div 60 2)"
    by (simp add: spec_trunc_div_def)
  have deg: "max 0 (400 - spec_trunc_div 50 2) \<ge> min (int 320) (400 + spec_trunc_div 50 2)"
    by (simp add: spec_trunc_div_def)
  have pos: "(0::int) < 50" "(0::int) < 60" by simp_all
  from crop_box_clamped_or_skipped[where video = demo_video and E = "demo_env Map.empty"
      and vp = "''Videos/a.avi''" and ap = "''a.txt''" and fp = "''fall''" and np = "''no_fall''"
      and sz = 224 and fs = "Some 10" and fe = "Some 20" and n = 3 and w = blank_world
      and sp = "''frames''" and s = 10 and e = 20, OF len parsed pos fr x0 y0 x1 y1]
  have "crop_box ?fr 400 100 50 60 = (375, 70, 320, 130) \<and>
     (data_record (demo_env Map.empty) demo_video ''Videos/a.avi'' ''a.txt'' ''fall'' ''no_fall'' 224
        (Some 10) (Some 20) 3 ''3,0,400,100,50,60'' blank_world = say (Invalid_Crop_Dimensions 3) blank_world \<and>
      utils_record (demo_env Map.empty) demo_video ''Videos/a.avi'' ''a.txt'' ''frames'' 224 3
        ''3,0,400,100,50,60'' blank_world = say (Invalid_Crop_Dimensions 3) blank_world)"
    by simp
  with len parsed fr deg show ?thesis by simp
qed

lemma save_image_resized:
  assumes "disk (save_image E q (Resized_Linear c sz sz) fn w) p = Some img"
  shows "disk w p = Some img \<or> img = Resized_Linear c sz sz"
  using assms by (auto simp: disk_save_image split: if_splits)

lemma data_record_resized:
  assumes "disk (data_record E video vp ap fp np sz fs fe n line w) p = Some img"
  shows "disk w p = Some img \<or> (\<exists>fr y0 y1 x0 x1. img = Resized_Linear (Crop fr y0 y1 x0 x1) sz sz)"
proof (cases rule: data_record_cases[of E video vp ap fp np sz fs fe n line w])
  case (quiet d)
  with assms show ?thesis by simp
next
  case (saved fn cx cy wd ht fr x0 y0 x1 y1 s e)
  from assms[unfolded saved(12)] save_image_resized show ?thesis by blast
qed

lemma utils_record_resized:
  assumes "disk (utils_record E video vp ap sp sz n line w) p = Some img"
  shows "disk w p = Some img \<or> (\<exists>fr y0 y1 x0 x1. img = Resized_Linear (Crop fr y0 y1 x0 x1) sz sz)"
proof (cases rule: utils_record_cases[of E video vp ap sp sz n line w])
  case (quiet d)
  with assms show ?thesis by simp
next
  case (saved fn cx cy wd ht fr x0 y0 x1 y1)
  from assms[unfolded saved(10)] save_image_resized show ?thesis by blast
qed

lemma data_line_resized:
  assumes "data_line E video vp ap fp np sz n line (fs, fe, w) = Inr (fs', fe', w')"
    and "disk w' p = Some img"
  shows "disk w p = Some img \<or> (\<exists>fr y0 y1 x0 x1. img = Resized_Linear (Crop fr y0 y1 x0 x1) sz sz)"
proof (cases "n = 1 \<or> n = 2")
  case True
  with assms have "w' = w" by (auto simp: data_line_def split: option.splits if_splits)
  with assms(2) show ?thesis by simp
next
  case False
  with assms(1) have "w' = data_record E video vp ap fp np sz fs fe n line w"
    by (auto simp: data_line_def)
  with assms(2) data_record_resized show ?thesis by blast
qed

lemma data_loop_resized:
  assumes "data_loop E video vp ap fp np sz n ls st = (r, fs', fe', w')"
    and "disk w' p = Some img"
  shows "disk (snd (snd st)) p = Some img \<or>
         (\<exists>fr y0 y1 x0 x1. img = Resized_Linear (Crop fr y0 y1 x0 x1) sz sz)"
  using assms
proof (induction ls arbitrary: n st)
  case Nil
  then show ?case by auto
next
  case (Cons l ls)
  obtain fs fe w where st: "st = (fs, fe, w)" by (cases st) auto
  show ?case
  proof (cases "data_line E video vp ap fp np sz n l st")
    case (Inl x)
    with Cons.prems show ?thesis by auto
  next
    case (Inr st1)
    obtain fs1 fe1 w1 where st1: "st1 = (fs1, fe1, w1)" by (cases st1) auto
    from Cons.prems(1) Inr have "data_loop E video vp ap fp np sz (Suc n) ls st1 = (r, fs', fe', w')"
      by simp
    from Cons.IH[OF this Cons.prems(2)]
    have "disk w1 p = Some img \<or> (\<exists>fr y0 y1 x0 x1. img = Resized_Linear (Crop fr y0 y1 x0 x1) sz sz)"
      by (simp add: st1)
    moreover have "disk w1 p = Some img \<Longrightarrow>
        disk w p = Some img \<or> (\<exists>fr y0 y1 x0 x1. img = Resized_Linear (Crop fr y0 y1 x0 x1) sz sz)"
      using data_line_resized[OF Inr[unfolded st st1]] by blast
    ultimately show ?thesis by (auto simp: st)
  qed
qed

lemma utils_loop_resized:
  assumes "disk (utils_loop E video vp ap sp sz n ls w) p = Some img"
  shows "disk w p = Some img \<or> (\<exists>fr y0 y1 x0 x1. img = Resized_Linear (Crop fr y0 y1 x0 x1) sz sz)"
  using assms
proof (induction ls arbitrary: n w)
  case Nil
  then show ?case by simp
next
  case (Cons l ls)
  from Cons.IH[of "Suc n" "utils_record E video vp ap sp sz n l w"] Cons.prems
  have "disk (utils_record E video vp ap sp sz n l w) p = Some img \<or>
        (\<exists>fr y0 y1 x0 x1. img = Resized_Linear (Crop fr y0 y1 x0 x1) sz sz)"
    by simp
  with utils_record_resized show ?case by blast
qed

text \<open>
  Claim C8. Whatever file a run of either variant creates or replaces holds an image
  produced by resizing a crop of a frame to \<open>image_size\<close> by \<open>image_size\<close> with linear
  interpolation, so its shape is exactly that.
\<close>

theorem written_images_have_image_size:
  assumes run: "data_crop_frames_using_annotations E vp ap fp np sz w = (r, w') \<or>
                utils_crop_frames_using_annotations E vp ap sp sz w = (r, w')"
    and new: "disk w' p = Some img" "disk w p \<noteq> Some img"
  shows "shape img = (sz, sz) \<and>
         (\<exists>fr y0 y1 x0 x1. img = Resized_Linear (Crop fr y0 y1 x0 x1) sz sz)"
proof -
  have "disk w p = Some img \<or> (\<exists>fr y0 y1 x0 x1. img = Resized_Linear (Crop fr y0 y1 x0 x1) sz sz)"
    using run
  proof
    assume d: "data_crop_frames_using_annotations E vp ap fp np sz w = (r, w')"
    show ?thesis
    proof (cases "video_capture E vp")
      case None
      with d new(1) show ?thesis by (auto simp: data_crop_frames_using_annotations_def)
    next
      case (Some video)
      show ?thesis
      proof (cases "open_text E ap")
        case None
        with d Some new(1) show ?thesis by (auto simp: data_crop_frames_using_annotations_def)
      next
        case (Some lines)
        obtain r1 fs1 fe1 w1 where loop:
          "data_loop E video vp ap fp np sz 1 lines (None, None, w) = (r1, fs1, fe1, w1)"
          by (cases "data_loop E video vp ap fp np sz 1 lines (None, None, w)") auto
        with d \<open>video_capture E vp = Some video\<close> Some have "w1 = w'"
          by (simp add: data_crop_frames_using_annotations_def)
        with data_loop_resized[OF loop, of p img] new(1) show ?thesis by simp
      qed
    qed
  next
    assume u: "utils_crop_frames_using_annotations E vp ap sp sz w = (r, w')"
    show ?thesis
    proof (cases "video_capture E vp")
      case None
      with u new(1) show ?thesis by (auto simp: utils_crop_frames_using_annotations_def)
    next
      case (Some video)
      show ?thesis
      proof (cases "open_text E ap")
        case None
        with u Some new(1) show ?thesis by (auto simp: utils_crop_frames_using_annotations_def)
      next
        case (Some lines)
        with u \<open>video_capture E vp = Some video\<close>
        have "w' = utils_loop E video vp ap sp sz 1 lines w"
          by (simp add: utils_crop_frames_using_annotations_def)
        with utils_loop_resized new(1) show ?thesis by blast
      qed
    qed
  qed
  with new(2) obtain fr y0 y1 x0 x1 where "img = Resized_Linear (Crop fr y0 y1 x0 x1) sz sz"
    by blast
  then show ?thesis by simp
qed


theorem written_images_have_image_size_witness:
  "disk (snd (data_crop_frames_using_annotations
                (demo_env [''Annotation_files/a.txt'' \<mapsto> demo_annotation])
                ''Videos/a.avi'' ''Annotation_files/a.txt'' ''fall'' ''no_fall'' 224 blank_world))
     ''fall/15.jpg''
     = Some (Resized_Linear (Crop \<lparr>pixels = 14, height_frame = 240, width_frame = 320\<rparr> 70 130 75 125)
               224 224) \<and>
   disk blank_world ''fall/15.jpg''
     \<noteq> Some (Resized_Linear (Crop \<lparr>pixels = 14, height_frame = 240, width_frame = 320\<rparr> 70 130 75 125)
               224 224) \<and>
   shape (Resized_Linear (Crop \<lparr>pixels = 14, height_frame = 240, width_frame = 320\<rparr> 70 130 75 125)
            224 224) = (224, 224)"
proof -
  let ?run = "data_crop_frames_using_annotations
                (demo_env [''Annotation_files/a.txt'' \<mapsto> demo_annotation])
                ''Videos/a.avi'' ''Annotation_files/a.txt'' ''fall'' ''no_fall'' 224 blank_world"
  let ?img = "Resized_Linear (Crop \<lparr>pixels = 14, height_frame = 240, width_frame = 320\<rparr> 70 130 75 125)
               224 224"
  have new: "disk (snd ?run) ''fall/15.jpg'' = Some ?img" by code_simp
  have old: "disk blank_world ''fall/15.jpg'' \<noteq> Some ?img" by (simp add: blank_world_def)
  have run: "?run = (fst ?run, snd ?run) \<or>
     utils_crop_frames_using_annotations (demo_env [''Annotation_files/a.txt'' \<mapsto> demo_annotation])
       ''Videos/a.avi'' ''Annotation_files/a.txt'' ''frames'' 224 blank_world = (fst ?run, snd ?run)"
    by simp
  from written_images_have_image_size[OF run new old] new old show ?thesis by blast
qed

section \<open>The loops as folds over the numbered lines\<close>

lemma utils_loop_fold:
  "utils_loop E video vp ap sp sz n ls w =
   foldl (\<lambda>u (k, l). utils_record E video vp ap sp sz k l u) w (enumerate n ls)"
  by (induction ls arbitrary: n w) simp_all

lemma data_loop_fold:
  "3 \<le> n \<Longrightarrow>
   data_loop E video vp ap fp np sz n ls (fs, fe, w) =
   (None, fs, fe, foldl (\<lambda>u (k, l). data_record E video vp ap fp np sz fs fe k l u) w (enumerate n ls))"
proof (induction ls arbitrary: n w)
  case Nil
  then show ?case by simp
next
  case (Cons l ls)
  from Cons.prems have "3 \<le> Suc n" by simp
  from Cons.IH[OF this] Cons.prems show ?case
    by (simp add: data_line_def)
qed

lemma fold_untouched:
  fixes R :: "nat \<Rightarrow> string \<Rightarrow> world \<Rightarrow> world"
  assumes "\<And>k l u. l \<in> set ls \<Longrightarrow> disk (R k l u) p = disk u p"
  shows "disk (foldl (\<lambda>u (k, l). R k l u) w (enumerate n ls)) p = disk w p"
  using assms
proof (induction ls arbitrary: n w)
  case Nil
  then show ?case by simp
next
  case (Cons l ls)
  have "disk (foldl (\<lambda>u (k, l). R k l u) (R n l w) (enumerate (Suc n) ls)) p = disk (R n l w) p"
    by (rule Cons.IH) (simp add: Cons.prems)
  then show ?case by (simp add: Cons.prems)
qed

lemma fold_last_writer:
  fixes R :: "nat \<Rightarrow> string \<Rightarrow> world \<Rightarrow> world"
  assumes l2: "\<And>k u. disk (R k l2 u) p = Some img2"
    and post: "\<And>k l u. l \<in> set post \<Longrightarrow> disk (R k l u) p = disk u p"
  shows "disk (foldl (\<lambda>u (k, l). R k l u) w (enumerate n (pre @ l2 # post))) p = Some img2"
proof -
  let ?f = "\<lambda>u (k, l). R k l u"
  let ?w1 = "foldl ?f w (enumerate n pre)"
  have "foldl ?f w (enumerate n (pre @ l2 # post)) =
        foldl ?f (R (n + length pre) l2 ?w1) (enumerate (Suc (n + length pre)) post)"
    by (simp add: enumerate_append_eq)
  moreover have "disk (foldl ?f (R (n + length pre) l2 ?w1) (enumerate (Suc (n + length pre)) post)) p =
        disk (R (n + length pre) l2 ?w1) p"
    using post by (intro fold_untouched)
  ultimately show ?thesis using l2 by simp
qed

section \<open>Frame numbers and file names\<close>

lemma digit_val_char: "k < 10 \<Longrightarrow> digit_val (char_of (48 + k :: nat)) = k"
  unfolding digit_val_def by (simp only: of_char_digit diff_add_inverse)

lemma digits_value: "foldl (\<lambda>a c. 10 * a + digit_val c) 0 (digits_of n) = n"
proof (induction n rule: digits_of.induct)
  case (1 n)
  show ?case
  proof (cases "n < 10")
    case True
    then show ?thesis by (simp add: digits_of.simps[of n] digit_val_char)
  next
    case False
    have "n mod 10 < 10" by simp
    then have "digit_val (char_of (48 + n mod 10)) = n mod 10" by (rule digit_val_char)
    with False "1.IH" show ?thesis by (simp add: digits_of.simps[of n])
  qed
qed

lemma digits_of_inject: "digits_of a = digits_of b \<Longrightarrow> a = b"
  using digits_value by metis

lemma minus_not_digit: "\<not> is_digit (CHR ''-'')"
  by (simp add: is_digit_def)

lemma digits_of_no_minus: "digits_of n \<noteq> CHR ''-'' # ds"
proof
  assume "digits_of n = CHR ''-'' # ds"
  then have "CHR ''-'' \<in> set (digits_of n)" by simp
  with digits_of_chars minus_not_digit show False by blast
qed

lemma py_str_inject: "py_str a = py_str b \<Longrightarrow> a = b"
proof -
  assume eq: "py_str a = py_str b"
  show ?thesis
  proof (cases "a < 0")
    case a: True
    show ?thesis
    proof (cases "b < 0")
      case True
      with a eq have "digits_of (nat (- a)) = digits_of (nat (- b))" by (simp add: py_str_def)
      then have "nat (- a) = nat (- b)" by (rule digits_of_inject)
      with a True show ?thesis by simp
    next
      case False
      with a eq have "digits_of (nat b) = CHR ''-'' # digits_of (nat (- a))" by (simp add: py_str_def)
      with digits_of_no_minus show ?thesis by blast
    qed
  next
    case a: False
    show ?thesis
    proof (cases "b < 0")
      case True
      with a eq have "digits_of (nat a) = CHR ''-'' # digits_of (nat (- b))" by (simp add: py_str_def)
      with digits_of_no_minus show ?thesis by blast
    next
      case False
      with a eq have "digits_of (nat a) = digits_of (nat b)" by (simp add: py_str_def)
      then have "nat a = nat b" by (rule digits_of_inject)
      with a False show ?thesis by simp
    qed
  qed
qed

lemma frame_path_inject:
  assumes "path_join d1 (py_str a @ ''.jpg'') = path_join d2 (py_str b @ ''.jpg'')"
  shows "a = b"
proof -
  from path_join_inject[OF jpg_name_no_slash jpg_name_no_slash assms]
  have "py_str a = py_str b" by simp
  then show ?thesis by (rule py_str_inject)
qed

section \<open>What one record line does to the disk, in any world\<close>

lemma utils_record_writes:
  assumes "disk (utils_record E video vp ap sp sz n line w) \<noteq> disk w"
  obtains fn b img where
    "parse_fields (split_comma (strip line)) = Some (fn, b)"
    "\<And>k u. disk (utils_record E video vp ap sp sz k line u) =
       (disk u)(path_join sp (py_str fn @ ''.jpg'') \<mapsto> img)"
proof (cases rule: utils_record_cases[of E video vp ap sp sz n line w])
  case (quiet d)
  with assms show ?thesis by simp
next
  case (saved fn cx cy wd ht fr x0 y0 x1 y1)
  let ?p = "path_join sp (py_str fn @ ''.jpg'')"
  let ?img = "Resized_Linear (Crop fr y0 y1 x0 x1) sz sz"
  from assms saved(10) have wr: "imwrite E ?p ?img = Written"
    by (auto simp: disk_save_image split: if_splits)
  have rs: "cv_resize (Crop fr y0 y1 x0 x1) sz sz = Some ?img"
  proof -
    from saved(1,2) have "utils_record E video vp ap sp sz n line w =
        (case cv_resize (Crop fr y0 y1 x0 x1) sz sz of
           None \<Rightarrow> say (Error_Processing_Frame fn) w
         | Some cropped \<Rightarrow> save_image E ?p cropped fn w)"
      using saved(3-8) by (simp add: utils_record_parsed)
    with assms show ?thesis by (auto simp: cv_resize_def split: if_splits)
  qed
  have "disk (utils_record E video vp ap sp sz k line u) = (disk u)(?p \<mapsto> ?img)" for k u
    using saved(3-8) rs wr
    by (simp add: utils_record_parsed[OF saved(1,2)] disk_save_image)
  with saved(2) show ?thesis using that by blast
qed

lemma utils_record_elsewhere:
  assumes "\<And>b. parse_fields (split_comma (strip line)) \<noteq> Some (fn, b)"
  shows "disk (utils_record E video vp ap sp sz k line u) (path_join sp (py_str fn @ ''.jpg'')) =
         disk u (path_join sp (py_str fn @ ''.jpg''))"
proof (cases rule: utils_record_cases[of E video vp ap sp sz k line u])
  case (quiet d)
  then show ?thesis by simp
next
  case (saved fn' cx cy wd ht fr x0 y0 x1 y1)
  from saved(2) assms have "fn' \<noteq> fn" by auto
  with frame_path_inject have "path_join sp (py_str fn' @ ''.jpg'') \<noteq> path_join sp (py_str fn @ ''.jpg'')"
    by blast
  with saved(10) show ?thesis by (simp add: disk_save_image)
qed

lemma data_record_writes:
  assumes "disk (data_record E video vp ap fp np sz (Some s) (Some e) n line w) \<noteq> disk w"
  obtains fn b img where
    "parse_fields (split_comma (strip line)) = Some (fn, b)"
    "\<And>k u. disk (data_record E video vp ap fp np sz (Some s) (Some e) k line u) =
       (disk u)(path_join (if s \<le> fn \<and> fn \<le> e then fp else np) (py_str fn @ ''.jpg'') \<mapsto> img)"
proof (cases rule: data_record_cases[of E video vp ap fp np sz "Some s" "Some e" n line w])
  case (quiet d)
  with assms show ?thesis by simp
next
  case (saved fn cx cy wd ht fr x0 y0 x1 y1 s' e')
  from saved(10,11) have se: "s' = s" "e' = e" by simp_all
  let ?p = "path_join (if s \<le> fn \<and> fn \<le> e then fp else np) (py_str fn @ ''.jpg'')"
  let ?img = "Resized_Linear (Crop fr y0 y1 x0 x1) sz sz"
  from assms saved(12) se have wr: "imwrite E ?p ?img = Written"
    by (auto simp: disk_save_image split: if_splits)
  have rs: "cv_resize (Crop fr y0 y1 x0 x1) sz sz = Some ?img"
  proof -
    from saved(1,2) have "data_record E video vp ap fp np sz (Some s) (Some e) n line w =
        (case cv_resize (Crop fr y0 y1 x0 x1) sz sz of
           None \<Rightarrow> say (Error_Processing_Frame fn) w
         | Some cropped \<Rightarrow> save_image E ?p cropped fn w)"
      using saved(3-8) by (simp add: data_record_parsed split: option.splits)
    with assms show ?thesis by (auto simp: cv_resize_def split: if_splits)
  qed
  have "disk (data_record E video vp ap fp np sz (Some s) (Some e) k line u) = (disk u)(?p \<mapsto> ?img)" for k u
    using saved(3-8) rs wr
    by (simp add: data_record_parsed[OF saved(1,2)] disk_save_image)
  with saved(2) show ?thesis using that by blast
qed

lemma data_record_elsewhere:
  assumes "\<And>b. parse_fields (split_comma (strip line)) \<noteq> Some (fn, b)"
  shows "disk (data_record E video vp ap fp np sz fs fe k line u) (path_join d (py_str fn @ ''.jpg'')) =
         disk u (path_join d (py_str fn @ ''.jpg''))"
proof (cases rule: data_record_cases[of E video vp ap fp np sz fs fe k line u])
  case (quiet d)
  then show ?thesis by simp
next
  case (saved fn' cx cy wd ht fr x0 y0 x1 y1 s e)
  from saved(2) assms have "fn' \<noteq> fn" by auto
  with frame_path_inject
  have "path_join (if s \<le> fn' \<and> fn' \<le> e then fp else np) (py_str fn' @ ''.jpg'') \<noteq>
        path_join d (py_str fn @ ''.jpg'')"
    by blast
  with saved(12) show ?thesis by (simp add: disk_save_image)
qed

lemma data_run_unfold:
  assumes "video_capture E vp = Some video" and "open_text E ap = Some (h1 # h2 # rest)"
  shows "data_crop_frames_using_annotations E vp ap fp np sz w =
     (case py_int (strip h1) of
        None \<Rightarrow> (Some ValueError, w)
      | Some s \<Rightarrow>
          (case py_int (strip h2) of
             None \<Rightarrow> (Some ValueError, w)
           | Some e \<Rightarrow>
               (None, foldl (\<lambda>u (k, l). data_record E video vp ap fp np sz (Some s) (Some e) k l u)
                        w (enumerate 3 rest))))"
proof -
  have three: "Suc (Suc (Suc 0)) = 3" by simp
  show ?thesis
    using assms
    by (simp add: data_crop_frames_using_annotations_def data_line_def data_loop_fold three
        split: option.splits)
qed

lemma utils_run_unfold:
  assumes "video_capture E vp = Some video" and "open_text E ap = Some lines"
  shows "utils_crop_frames_using_annotations E vp ap sp sz w =
     (None, foldl (\<lambda>u (k, l). utils_record E video vp ap sp sz k l u) w (enumerate 1 lines))"
  using assms by (simp add: utils_crop_frames_using_annotations_def utils_loop_fold)

text \<open>
  Claim C10. In one run the path of an image is the destination directory joined with
  the frame number and \<^verbatim>\<open>.jpg\<close>. When two record lines with the same frame number both
  write, each of them writes at that one path, and when no later line with that frame
  number writes, the file there after the run is the image of the later of the two.
\<close>

theorem later_record_overwrites:
  assumes vid: "video_capture E vp = Some video"
    and variant:
      "(R = utils_record E video vp ap sp sz \<and> open_text E ap = Some lines \<and> dir = sp \<and>
        final = snd (utils_crop_frames_using_annotations E vp ap sp sz w)) \<or>
       (R = data_record E video vp ap fp np sz (Some s) (Some e) \<and>
        open_text E ap = Some (h1 # h2 # lines) \<and>
        py_int (strip h1) = Some s \<and> py_int (strip h2) = Some e \<and>
        dir = (if s \<le> fn \<and> fn \<le> e then fp else np) \<and>
        final = snd (data_crop_frames_using_annotations E vp ap fp np sz w))"
    and lines: "lines = pre @ l1 # mid @ l2 # post"
    and p1: "parse_fields (split_comma (strip l1)) = Some (fn, b1)"
    and p2: "parse_fields (split_comma (strip l2)) = Some (fn, b2)"
    and w1: "disk (R n1 l1 u1) \<noteq> disk u1"
    and w2: "disk (R n2 l2 u2) \<noteq> disk u2"
    and last: "\<forall>l \<in> set post. \<forall>b. parse_fields (split_comma (strip l)) = Some (fn, b) \<longrightarrow>
                 (\<forall>k u. disk (R k l u) = disk u)"
  shows "\<exists>img1 img2.
           (\<forall>k u. disk (R k l1 u) = (disk u)(path_join dir (py_str fn @ ''.jpg'') \<mapsto> img1)) \<and>
           (\<forall>k u. disk (R k l2 u) = (disk u)(path_join dir (py_str fn @ ''.jpg'') \<mapsto> img2)) \<and>
           disk final (path_join dir (py_str fn @ ''.jpg'')) = Some img2"
proof -
  let ?p = "path_join dir (py_str fn @ ''.jpg'')"
  have writes: "\<exists>img. \<forall>k u. disk (R k l u) = (disk u)(?p \<mapsto> img)"
    if "parse_fields (split_comma (strip l)) = Some (fn, b)" and "disk (R n l u0) \<noteq> disk u0"
    for l b n u0
    using variant
  proof
    assume v: "R = utils_record E video vp ap sp sz \<and> open_text E ap = Some lines \<and> dir = sp \<and>
        final = snd (utils_crop_frames_using_annotations E vp ap sp sz w)"
    from that(2) v have "disk (utils_record E video vp ap sp sz n l u0) \<noteq> disk u0" by simp
    then obtain fn' b' img where "parse_fields (split_comma (strip l)) = Some (fn', b')"
      "\<forall>k u. disk (utils_record E video vp ap sp sz k l u) =
         (disk u)(path_join sp (py_str fn' @ ''.jpg'') \<mapsto> img)"
      by (rule utils_record_writes) blast
    with that(1) v show ?thesis by auto
  next
    assume v: "R = data_record E video vp ap fp np sz (Some s) (Some e) \<and>
        open_text E ap = Some (h1 # h2 # lines) \<and>
        py_int (strip h1) = Some s \<and> py_int (strip h2) = Some e \<and>
        dir = (if s \<le> fn \<and> fn \<le> e then fp else np) \<and>
        final = snd (data_crop_frames_using_annotations E vp ap fp np sz w)"
    from that(2) v have "disk (data_record E video vp ap fp np sz (Some s) (Some e) n l u0) \<noteq> disk u0"
      by simp
    then obtain fn' b' img where "parse_fields (split_comma (strip l)) = Some (fn', b')"
      "\<forall>k u. disk (data_record E video vp ap fp np sz (Some s) (Some e) k l u) =
         (disk u)(path_join (if s \<le> fn' \<and> fn' \<le> e then fp else np) (py_str fn' @ ''.jpg'') \<mapsto> img)"
      by (rule data_record_writes) blast
    with that(1) v show ?thesis by auto
  qed
  from writes[OF p1 w1] obtain img1 where i1: "\<forall>k u. disk (R k l1 u) = (disk u)(?p \<mapsto> img1)" by blast
  from writes[OF p2 w2] obtain img2 where i2: "\<forall>k u. disk (R k l2 u) = (disk u)(?p \<mapsto> img2)" by blast
  have elsewhere: "disk (R k l u) ?p = disk u ?p"
    if "\<And>b. parse_fields (split_comma (strip l)) \<noteq> Some (fn, b)" for l k u
    using variant utils_record_elsewhere[OF that] data_record_elsewhere[OF that] by auto
  have post: "disk (R k l u) ?p = disk u ?p" if "l \<in> set post" for k l u
  proof (cases "\<exists>b. parse_fields (split_comma (strip l)) = Some (fn, b)")
    case True
    with last that show ?thesis by auto
  next
    case False
    then show ?thesis by (intro elsewhere) auto
  qed
  have l2: "disk (R k l2 u) ?p = Some img2" for k u using i2 by simp
  have fold: "disk (foldl (\<lambda>u (k, l). R k l u) w (enumerate n lines)) ?p = Some img2" for n
  proof -
    have "lines = (pre @ l1 # mid) @ l2 # post" using lines by simp
    then show ?thesis using fold_last_writer[of R l2 ?p img2 post w n "pre @ l1 # mid"] l2 post
      by simp
  qed
  have "disk final ?p = Some img2"
    using variant
  proof
    assume v: "R = utils_record E video vp ap sp sz \<and> open_text E ap = Some lines \<and> dir = sp \<and>
        final = snd (utils_crop_frames_using_annotations E vp ap sp sz w)"
    then have "final = foldl (\<lambda>u (k, l). R k l u) w (enumerate 1 lines)"
      using utils_run_unfold[OF vid, of ap lines sp sz w] by simp
    with fold show ?thesis by simp
  next
    assume v: "R = data_record E video vp ap fp np sz (Some s) (Some e) \<and>
        open_text E ap = Some (h1 # h2 # lines) \<and>
        py_int (strip h1) = Some s \<and> py_int (strip h2) = Some e \<and>
        dir = (if s \<le> fn \<and> fn \<le> e then fp else np) \<and>
        final = snd (data_crop_frames_using_annotations E vp ap fp np sz w)"
    then have "final = foldl (\<lambda>u (k, l). R k l u) w (enumerate 3 lines)"
      using data_run_unfold[OF vid, of ap h1 h2 lines fp np sz w] by simp
    with fold show ?thesis by simp
  qed
  with i1 i2 show ?thesis by blast
qed


theorem later_record_overwrites_witness:
  "video_capture (demo_env [''Annotation_files/a.txt'' \<mapsto> repeated_frame_annotation]) ''Videos/a.avi''
     = Some demo_video \<and>
   parse_fields (split_comma (strip ''15,0,100,100,50,60'')) = Some (15, 100, 100, 50, 60) \<and>
   parse_fields (split_comma (strip ''15,0,120,110,40,60'')) = Some (15, 120, 110, 40, 60) \<and>
   disk (snd (data_crop_frames_using_annotations
                (demo_env [''Annotation_files/a.txt'' \<mapsto> repeated_frame_annotation])
                ''Videos/a.avi'' ''Annotation_files/a.txt'' ''fall'' ''no_fall'' 224 blank_world))
     ''fall/15.jpg''
     = Some (Resized_Linear (Crop \<lparr>pixels = 14, height_frame = 240, width_frame = 320\<rparr> 80 140 100 140)
               224 224)"
proof -
  let ?E = "demo_env [''Annotation_files/a.txt'' \<mapsto> repeated_frame_annotation]"
  let ?R = "data_record ?E demo_video ''Videos/a.avi'' ''Annotation_files/a.txt'' ''fall'' ''no_fall''
              224 (Some 10) (Some 20)"
  let ?final = "snd (data_crop_frames_using_annotations ?E ''Videos/a.avi'' ''Annotation_files/a.txt''
                       ''fall'' ''no_fall'' 224 blank_world)"
  let ?img2 = "Resized_Linear (Crop \<lparr>pixels = 14, height_frame = 240, width_frame = 320\<rparr> 80 140 100 140)
                 224 224"
  have vid: "video_capture ?E ''Videos/a.avi'' = Some demo_video" by (simp add: demo_env_def)
  have opened: "open_text ?E ''Annotation_files/a.txt'' =
      Some (''10'' # ''20'' # [] @ ''15,0,100,100,50,60'' # [''3,0,100,100,50,60'']
              @ ''15,0,120,110,40,60'' # [''16,0,100,100,50,60''])"
    by (simp add: demo_env_def repeated_frame_annotation_def)
  have h1: "py_int (strip ''10'') = Some 10" by code_simp
  have h2: "py_int (strip ''20'') = Some 20" by code_simp
  have dir: "''fall'' = (if (10::int) \<le> 15 \<and> (15::int) \<le> 20 then ''fall'' else ''no_fall'')" by simp
  have variant:
    "(?R = utils_record ?E demo_video ''Videos/a.avi'' ''Annotation_files/a.txt'' ''frames'' 224 \<and>
      open_text ?E ''Annotation_files/a.txt'' =
        Some ([] @ ''15,0,100,100,50,60'' # [''3,0,100,100,50,60'']
              @ ''15,0,120,110,40,60'' # [''16,0,100,100,50,60'']) \<and>
      ''fall'' = ''frames'' \<and>
      ?final = snd (utils_crop_frames_using_annotations ?E ''Videos/a.avi'' ''Annotation_files/a.txt''
                      ''frames'' 224 blank_world)) \<or>
     (?R = ?R \<and>
      open_text ?E ''Annotation_files/a.txt'' =
        Some (''10'' # ''20'' # ([] @ ''15,0,100,100,50,60'' # [''3,0,100,100,50,60'']
              @ ''15,0,120,110,40,60'' # [''16,0,100,100,50,60''])) \<and>
      py_int (strip ''10'') = Some 10 \<and> py_int (strip ''20'') = Some 20 \<and>
      ''fall'' = (if (10::int) \<le> 15 \<and> (15::int) \<le> 20 then ''fall'' else ''no_fall'') \<and>
      ?final = ?final)"
    using opened h1 h2 dir by simp
  have p1: "parse_fields (split_comma (strip ''15,0,100,100,50,60'')) = Some (15, 100, 100, 50, 60)"
    by code_simp
  have p2: "parse_fields (split_comma (strip ''15,0,120,110,40,60'')) = Some (15, 120, 110, 40, 60)"
    by code_simp
  have "disk (?R 3 ''15,0,100,100,50,60'' blank_world) ''fall/15.jpg'' \<noteq> disk blank_world ''fall/15.jpg''"
    by code_simp
  then have w1: "disk (?R 3 ''15,0,100,100,50,60'' blank_world) \<noteq> disk blank_world" by metis
  have at2: "disk (?R 5 ''15,0,120,110,40,60'' blank_world) ''fall/15.jpg'' = Some ?img2"
    by code_simp
  have "disk blank_world ''fall/15.jpg'' = None" by (simp add: blank_world_def)
  with at2 have w2: "disk (?R 5 ''15,0,120,110,40,60'' blank_world) \<noteq> disk blank_world" by auto
  have p3: "parse_fields (split_comma (strip ''16,0,100,100,50,60'')) = Some (16, 100, 100, 50, 60)"
    by code_simp
  have last: "\<forall>l \<in> set [''16,0,100,100,50,60''].
      \<forall>b. parse_fields (split_comma (strip l)) = Some (15, b) \<longrightarrow> (\<forall>k u. disk (?R k l u) = disk u)"
    using p3 by simp
  from later_record_overwrites[OF vid variant refl p1 p2 w1 w2 last]
  obtain img2 where
    a: "\<forall>k u. disk (?R k ''15,0,120,110,40,60'' u) = (disk u)(path_join ''fall'' (py_str 15 @ ''.jpg'') \<mapsto> img2)"
    and b: "disk ?final (path_join ''fall'' (py_str 15 @ ''.jpg'')) = Some img2"
    by blast
  have path: "path_join ''fall'' (py_str 15 @ ''.jpg'') = ''fall/15.jpg''" by code_simp
  from a at2 have "img2 = ?img2" unfolding path by simp
  with b have "disk ?final ''fall/15.jpg'' = Some ?img2" unfolding path by simp
  with vid p1 p2 show ?thesis by blast
qed

section \<open>Lines that hold a single integer\<close>

lemma strip_decompose: "\<exists>u. dropWhile is_space s = strip s @ u"
proof -
  let ?a = "dropWhile is_space s"
  have "?a = rev (takeWhile is_space (rev ?a) @ dropWhile is_space (rev ?a))"
    by (simp only: takeWhile_dropWhile_id rev_rev_ident)
  also have "\<dots> = rev (dropWhile is_space (rev ?a)) @ rev (takeWhile is_space (rev ?a))"
    by (simp only: rev_append)
  finally have "?a = strip s @ rev (takeWhile is_space (rev ?a))"
    by (simp only: strip_def)
  then show ?thesis by blast
qed

lemma strip_head: "strip s \<noteq> [] \<Longrightarrow> \<not> is_space (hd (strip s))"
proof -
  assume ne: "strip s \<noteq> []"
  obtain u where u: "dropWhile is_space s = strip s @ u" using strip_decompose by blast
  with ne have "dropWhile is_space s \<noteq> []" by auto
  then have "\<not> is_space (hd (dropWhile is_space s))" by (rule hd_dropWhile)
  with u ne show ?thesis by simp
qed

lemma strip_idem: "strip (strip s) = strip s"
proof (cases "strip s = []")
  case True
  have "strip [] = []" by (simp add: strip_def)
  with True show ?thesis by simp
next
  case False
  from strip_head[OF False] False have dw: "dropWhile is_space (strip s) = strip s"
    by (cases "strip s") auto
  have r: "rev (strip s) = dropWhile is_space (rev (dropWhile is_space s))"
    by (simp only: strip_def rev_rev_ident)
  have "strip (strip s) = rev (dropWhile is_space (rev (dropWhile is_space (strip s))))"
    by (rule strip_def)
  also have "\<dots> = rev (dropWhile is_space (rev (strip s)))" by (simp only: dw)
  also have "\<dots> = rev (dropWhile is_space (dropWhile is_space (rev (dropWhile is_space s))))"
    by (simp only: r)
  also have "\<dots> = rev (dropWhile is_space (rev (dropWhile is_space s)))"
    by (simp only: dropWhile_idem)
  also have "\<dots> = strip s" by (simp only: strip_def)
  finally show ?thesis .
qed

lemma parse_digits_chars:
  "parse_digits acc pd s = Some n \<Longrightarrow> \<forall>c \<in> set s. is_digit c \<or> c = CHR ''_''"
  by (induction s arbitrary: acc pd) (auto split: if_splits)

lemma py_int_chars:
  assumes "py_int t = Some v"
  shows "strip t \<noteq> [] \<and> CHR '','' \<notin> set (strip t)"
proof -
  have comma: "\<not> is_digit (CHR '','')" by (simp add: is_digit_def)
  from assms obtain c cs where s: "strip t = c # cs"
    by (cases "strip t") (auto simp: py_int_def)
  have "\<forall>x \<in> set cs. is_digit x \<or> x = CHR ''_''"
    using assms s parse_digits_chars
    by (fastforce simp: py_int_def split: if_splits)
  moreover have "c \<noteq> CHR '',''"
    using assms s parse_digits_chars[of 0 False "c # cs"] comma
    by (auto simp: py_int_def split: if_splits)
  ultimately show ?thesis using s comma by auto
qed

lemma split_on_no_sep: "sep \<notin> set s \<Longrightarrow> split_on sep cur s = [rev cur @ s]"
  by (induction s arbitrary: cur) auto

lemma single_integer_malformed:
  assumes "py_int (strip h) = Some v"
  shows "utils_record E video vp ap sp sz k h u = say (Malformed_Annotation k ap (strip h)) u"
proof -
  from py_int_chars[OF assms] have "strip h \<noteq> []" "CHR '','' \<notin> set (strip h)"
    by (simp_all add: strip_idem)
  then have "strip h \<noteq> []" "split_comma (strip h) = [strip h]"
    by (simp_all add: split_comma_def split_on_no_sep)
  then show ?thesis by (simp add: utils_record_def)
qed

text \<open>
  Claim C7, as the code has it. In the two-directory variant the first two lines are
  converted to the two bounds of the fall interval, and the lines from the third on are
  the records. The single-directory variant has no fall interval: every line from the
  first on goes through the record parsing, where a line that holds a single integer is
  skipped as malformed.
\<close>

theorem header_lines_are_bounds_in_two_directory_variant:
  assumes vid: "video_capture E vp = Some video"
    and opened: "open_text E ap = Some (h1 # h2 # rest)"
  shows "data_crop_frames_using_annotations E vp ap fp np sz w =
           (case py_int (strip h1) of
              None \<Rightarrow> (Some ValueError, w)
            | Some s \<Rightarrow>
                (case py_int (strip h2) of
                   None \<Rightarrow> (Some ValueError, w)
                 | Some e \<Rightarrow>
                     (None, foldl (\<lambda>u (k, l). data_record E video vp ap fp np sz (Some s) (Some e) k l u)
                              w (enumerate 3 rest)))) \<and>
         utils_crop_frames_using_annotations E vp ap sp sz w =
           (None, foldl (\<lambda>u (k, l). utils_record E video vp ap sp sz k l u) w
                    (enumerate 1 (h1 # h2 # rest))) \<and>
         (\<forall>h v k u. py_int (strip h) = Some v \<longrightarrow>
            utils_record E video vp ap sp sz k h u = say (Malformed_Annotation k ap (strip h)) u)"
  using data_run_unfold[OF vid opened] utils_run_unfold[OF vid opened] single_integer_malformed
  by blast

theorem header_lines_are_bounds_in_two_directory_variant_witness:
  "video_capture (demo_env [''Annotation_files/a.txt'' \<mapsto> demo_annotation]) ''Videos/a.avi''
     = Some demo_video \<and>
   open_text (demo_env [''Annotation_files/a.txt'' \<mapsto> demo_annotation]) ''Annotation_files/a.txt''
     = Some demo_annotation \<and>
   data_crop_frames_using_annotations (demo_env [''Annotation_files/a.txt'' \<mapsto> demo_annotation])
       ''Videos/a.avi'' ''Annotation_files/a.txt'' ''fall'' ''no_fall'' 224 blank_world =
     (None, foldl (\<lambda>u (k, l). data_record (demo_env [''Annotation_files/a.txt'' \<mapsto> demo_annotation])
                    demo_video ''Videos/a.avi'' ''Annotation_files/a.txt'' ''fall'' ''no_fall'' 224
                    (Some 10) (Some 20) k l u)
              blank_world (enumerate 3 [''15,0,100,100,50,60'' @ [CHR 0x0A], ''5,0,100,100,0,60''])) \<and>
   utils_record (demo_env [''Annotation_files/a.txt'' \<mapsto> demo_annotation]) demo_video
       ''Videos/a.avi'' ''Annotation_files/a.txt'' ''frames'' 224 1 (''10'' @ [CHR 0x0A]) blank_world =
     say (Malformed_Annotation 1 ''Annotation_files/a.txt'' ''10'') blank_world"
proof -
  let ?E = "demo_env [''Annotation_files/a.txt'' \<mapsto> demo_annotation]"
  have vid: "video_capture ?E ''Videos/a.avi'' = Some demo_video" by (simp add: demo_env_def)
  have opened: "open_text ?E ''Annotation_files/a.txt'' =
      Some ((''10'' @ [CHR 0x0A]) # (''20'' @ [CHR 0x0A]) #
            [''15,0,100,100,50,60'' @ [CHR 0x0A], ''5,0,100,100,0,60''])"
    by (simp add: demo_env_def demo_annotation_def)
  have h1: "py_int (strip (''10'' @ [CHR 0x0A])) = Some 10" by code_simp
  have h2: "py_int (strip (''20'' @ [CHR 0x0A])) = Some 20" by code_simp
  have s1: "strip (''10'' @ [CHR 0x0A]) = ''10''" by code_simp
  note t = header_lines_are_bounds_in_two_directory_variant[OF vid opened,
      of "''fall''" "''no_fall''" 224 blank_world "''frames''"]
  from t h1 h2 have d: "data_crop_frames_using_annotations ?E
       ''Videos/a.avi'' ''Annotation_files/a.txt'' ''fall'' ''no_fall'' 224 blank_world =
     (None, foldl (\<lambda>u (k, l). data_record ?E
                    demo_video ''Videos/a.avi'' ''Annotation_files/a.txt'' ''fall'' ''no_fall'' 224
                    (Some 10) (Some 20) k l u)
              blank_world (enumerate 3 [''15,0,100,100,50,60'' @ [CHR 0x0A], ''5,0,100,100,0,60'']))"
    by simp
  from t h1 have "utils_record ?E demo_video
       ''Videos/a.avi'' ''Annotation_files/a.txt'' ''frames'' 224 1 (''10'' @ [CHR 0x0A]) blank_world =
     say (Malformed_Annotation 1 ''Annotation_files/a.txt'' (strip (''10'' @ [CHR 0x0A]))) blank_world"
    by blast
  then have u: "utils_record ?E demo_video
       ''Videos/a.avi'' ''Annotation_files/a.txt'' ''frames'' 224 1 (''10'' @ [CHR 0x0A]) blank_world =
     say (Malformed_Annotation 1 ''Annotation_files/a.txt'' ''10'') blank_world"
    unfolding s1 .
  have o: "open_text ?E ''Annotation_files/a.txt'' = Some demo_annotation" by (simp add: demo_env_def)
  from vid o d u show ?thesis by blast
qed

text \<open>
  Claim C7 as stated fails for \<^verbatim>\<open>utils.py\<close>: on a file whose first line is a record, the
  single-directory variant crops and saves the frame that line names, and reads the second
  line as a record with too few fields.
\<close>

theorem single_directory_variant_reads_first_line_as_record:
  "disk (snd (utils_crop_frames_using_annotations
                (demo_env [''Annotation_files/a.txt'' \<mapsto> record_first_annotation])
                ''Videos/a.avi'' ''Annotation_files/a.txt'' ''frames'' 224 blank_world))
     ''frames/15.jpg''
     = Some (Resized_Linear (Crop \<lparr>pixels = 14, height_frame = 240, width_frame = 320\<rparr> 70 130 75 125)
               224 224) \<and>
   out (snd (utils_crop_frames_using_annotations
                (demo_env [''Annotation_files/a.txt'' \<mapsto> record_first_annotation])
                ''Videos/a.avi'' ''Annotation_files/a.txt'' ''frames'' 224 blank_world))
     = [Malformed_Annotation 2 ''Annotation_files/a.txt'' ''20'']"
  by code_simp

section \<open>Which failures end a run\<close>

text \<open>
  In \<^verbatim>\<open>data.py\<close> a header line that is no integer raises; a video that does not open is
  skipped and the batch goes on; \<^verbatim>\<open>utils.py\<close> raises nothing once the annotation file is open.
\<close>

lemma bad_header_raises:
  assumes "video_capture E vp = Some video" and "open_text E ap = Some (h1 # h2 # rest)"
    and "py_int (strip h1) = None \<or> py_int (strip h2) = None"
  shows "data_crop_frames_using_annotations E vp ap fp np sz w = (Some ValueError, w)"
  using data_run_unfold[OF assms(1,2), of fp np sz w] assms(3)
  by (auto split: option.splits)

lemma unopenable_video_skipped:
  assumes "isfile E (path_join ap (splitext_root vf @ ''.txt''))"
    and "video_capture E (path_join vp vf) = None"
  shows "data_videos E vp fp np ap sz (vf # rest) w =
         data_videos E vp fp np ap sz rest
           (say (Cannot_Open_Video (path_join vp vf))
             (say (Processing_Video vf (path_join ap (splitext_root vf @ ''.txt''))) w))"
  using assms by (simp add: Let_def data_crop_frames_using_annotations_def)

lemma utils_run_never_raises:
  assumes "open_text E ap \<noteq> None"
  shows "fst (utils_crop_frames_using_annotations E vp ap sp sz w) = None"
  using assms by (auto simp: utils_crop_frames_using_annotations_def split: option.splits)

text \<open>
  Claim C3, at an input where the code departs from it. The first video of the room has
  an annotation file whose first line is no integer. In \<^verbatim>\<open>data.py\<close> the conversion of
  that line is outside every \<^verbatim>\<open>try\<close>: the \<^verbatim>\<open>ValueError\<close> leaves the extractor and the
  batch driver, nothing is printed about it, and the second video is never processed.
  On the same room \<^verbatim>\<open>utils.py\<close> prints the line as malformed and goes on.
\<close>

theorem bad_header_aborts_batch:
  "fst (data_process_all_rooms (demo_env demo_texts)
          [(''Videos'', ''fall'', ''no_fall'', ''Annotation_files'')] 224 blank_world)
     = Some ValueError \<and>
   out (snd (data_process_all_rooms (demo_env demo_texts)
          [(''Videos'', ''fall'', ''no_fall'', ''Annotation_files'')] 224 blank_world))
     = [Processing_Videos 2 ''Videos'', Processing_Video ''a.avi'' ''Annotation_files/a.txt''] \<and>
   disk (snd (data_process_all_rooms (demo_env demo_texts)
          [(''Videos'', ''fall'', ''no_fall'', ''Annotation_files'')] 224 blank_world))
     ''fall/b/15.jpg'' = None \<and>
   fst (utils_process_all_rooms (demo_env demo_texts) [(''Videos'', ''frames'')] 224 blank_world)
     = None \<and>
   out (snd (utils_process_all_rooms (demo_env demo_texts) [(''Videos'', ''frames'')] 224 blank_world))
     = [Processing_Videos 2 ''Videos'',
        Processing_Video ''a.avi'' ''Annotation_files/a.txt'',
        Malformed_Annotation 1 ''Annotation_files/a.txt'' ''start'',
        Malformed_Annotation 2 ''Annotation_files/a.txt'' ''20'',
        Processing_Video ''b.avi'' ''Annotation_files/b.txt'',
        Malformed_Annotation 1 ''Annotation_files/b.txt'' ''10'',
        Malformed_Annotation 2 ''Annotation_files/b.txt'' ''20'',
        Invalid_Box_Dimensions 0 60 4]"
  by code_simp

section \<open>Facts about the splitter\<close>

lemma collect_loop_disk: "disk (snd (collect_loop E exts ds files w)) = disk w"
  by (induction ds arbitrary: files w) (simp_all add: Let_def)

lemma collect_disk: "collect_images_from_dirs E ds w = (files, w') \<Longrightarrow> disk w' = disk w"
  using collect_loop_disk[of E "[''.jpg'', ''.png'']" ds "[]" w]
  by (simp add: collect_images_from_dirs_def)

text \<open>
  Claim C6. When either collected list is empty the splitter prints one line and returns:
  no exception, no copy, the disk is the disk it started from.
\<close>

theorem empty_label_aborts_split:
  assumes fall: "collect_images_from_dirs E source_fall_dirs w = (fall_files, w1)"
    and no_fall: "collect_images_from_dirs E source_no_fall_dirs w1 = (no_fall_files, w2)"
    and empty: "fall_files = [] \<or> no_fall_files = []"
  shows "split_data E fmul g source_fall_dirs source_no_fall_dirs dest_base_dir train_ratio val_ratio w =
           (None, say (if no_fall_files = [] then No_Files_In_No_Fall else No_Files_In_Fall) w2) \<and>
         disk (say (if no_fall_files = [] then No_Files_In_No_Fall else No_Files_In_Fall) w2) = disk w"
proof -
  have "disk w2 = disk w" using collect_disk[OF fall] collect_disk[OF no_fall] by simp
  moreover have "split_data E fmul g source_fall_dirs source_no_fall_dirs dest_base_dir train_ratio val_ratio w =
           (None, say (if no_fall_files = [] then No_Files_In_No_Fall else No_Files_In_Fall) w2)"
    using fall no_fall empty by (auto simp: split_data_def)
  ultimately show ?thesis by simp
qed

theorem empty_label_aborts_split_witness:
  "fst (collect_images_from_dirs (demo_env Map.empty) [''nowhere'']
          (snd (collect_images_from_dirs (demo_env Map.empty) [''frames/fall'']
                  \<lparr>out = [], disk = demo_disk\<rparr>))) = [] \<and>
   fst (split_data (demo_env Map.empty) exact_mul demo_draws [''frames/fall''] [''nowhere''] ''split''
          (Finite (7/10)) (Finite (15/100)) \<lparr>out = [], disk = demo_disk\<rparr>) = None \<and>
   out (snd (split_data (demo_env Map.empty) exact_mul demo_draws [''frames/fall''] [''nowhere''] ''split''
          (Finite (7/10)) (Finite (15/100)) \<lparr>out = [], disk = demo_disk\<rparr>))
     = [Found_Images 4 ''frames/fall'', Found_Images 0 ''nowhere'', No_Files_In_No_Fall] \<and>
   disk (snd (split_data (demo_env Map.empty) exact_mul demo_draws [''frames/fall''] [''nowhere''] ''split''
          (Finite (7/10)) (Finite (15/100)) \<lparr>out = [], disk = demo_disk\<rparr>)) = demo_disk"
proof -
  let ?E = "demo_env Map.empty"
  let ?w = "\<lparr>out = [], disk = demo_disk\<rparr>"
  let ?c1 = "collect_images_from_dirs ?E [''frames/fall''] ?w"
  let ?c2 = "collect_images_from_dirs ?E [''nowhere''] (snd ?c1)"
  have c1: "?c1 = (fst ?c1, snd ?c1)" by simp
  have c2: "?c2 = (fst ?c2, snd ?c2)" by simp
  have e: "fst ?c2 = []" by code_simp
  then have empty: "fst ?c1 = [] \<or> fst ?c2 = []" by simp
  have o: "out (snd ?c2) = [Found_Images 4 ''frames/fall'', Found_Images 0 ''nowhere'']" by code_simp
  from empty_label_aborts_split[OF c1 c2 empty, of exact_mul demo_draws "''split''"
      "Finite (7/10)" "Finite (15/100)"] e
  have r: "split_data ?E exact_mul demo_draws [''frames/fall''] [''nowhere''] ''split''
          (Finite (7/10)) (Finite (15/100)) ?w = (None, say No_Files_In_No_Fall (snd ?c2))"
    and d: "disk (say No_Files_In_No_Fall (snd ?c2)) = disk ?w"
    by simp_all
  from r have "fst (split_data ?E exact_mul demo_draws [''frames/fall''] [''nowhere''] ''split''
          (Finite (7/10)) (Finite (15/100)) ?w) = None"
    by simp
  moreover from r o have "out (snd (split_data ?E exact_mul demo_draws [''frames/fall''] [''nowhere''] ''split''
          (Finite (7/10)) (Finite (15/100)) ?w))
     = [Found_Images 4 ''frames/fall'', Found_Images 0 ''nowhere'', No_Files_In_No_Fall]"
    by simp
  moreover from r d have "disk (snd (split_data ?E exact_mul demo_draws [''frames/fall''] [''nowhere''] ''split''
          (Finite (7/10)) (Finite (15/100)) ?w)) = demo_disk"
    by simp
  ultimately show ?thesis using e by blast
qed

section \<open>Shuffling and slicing\<close>















section \<open>Copying\<close>

lemma copy_file_done:
  assumes "copy_file src dst w = Inr w'"
  obtains content where "disk w src = Some content" "src \<noteq> dst"
    "w' = w\<lparr>disk := (disk w)(dst \<mapsto> content)\<rparr>"
  using assms by (auto simp: copy_file_def split: option.splits if_splits)



lemma copy_jobs_out: "copy_jobs js w = (r, w') \<Longrightarrow> out w' = out w"
proof (induction js arbitrary: w)
  case Nil
  then show ?case by simp
next
  case (Cons j js)
  obtain src dst where j: "j = (src, dst)" by (cases j) auto
  show ?case
  proof (cases "copy_file src dst w")
    case (Inl e)
    with Cons.prems j show ?thesis by simp
  next
    case (Inr w1)
    then obtain content where w1: "w1 = w\<lparr>disk := (disk w)(dst \<mapsto> content)\<rparr>"
      by (rule copy_file_done)
    from Cons.prems(1) j Inr have "copy_jobs js w1 = (r, w')" by simp
    then show ?thesis using Cons.IH[of w1] w1 by simp
  qed
qed






section \<open>Destinations of different groups differ\<close>











end
